theory Spec2Isabelle
  imports Main "HOL-Library.Sublist"
begin

section \<open>Python values used by the notice generator\<close>

text \<open>
  A Python string is a sequence of Unicode code points. The code validator, the bank name
  lookup and the record grouper are written for every type \<open>'c\<close> of code points. What they
  consult of the Unicode character database is the parameter \<open>U\<close>: the classes behind
  \<^verbatim>\<open>str.isalpha\<close>, \<^verbatim>\<open>str.isalnum\<close> and the whitespace of \<^verbatim>\<open>str.strip\<close>, and the full uppercase
  mapping behind \<^verbatim>\<open>str.upper\<close>, which can give several code points for one (\<^verbatim>\<open>SS\<close> for
  U+00DF). \<open>of_ascii U\<close> is the code point of a character of a literal of the source.
  The document model reads the texts of a document as HOL strings; its only case mapping,
  \<^verbatim>\<open>str.lower\<close>, is given on the code points below 128 and leaves every other character as
  it is. Exceptions are values: a function that can raise returns \<open>py_error + 'a\<close>.
\<close>

datatype py_error = IndexError | KeyError | ValueError | OSError | PackageNotFoundError

record 'c unicode =
  of_ascii :: "char \<Rightarrow> 'c"
  unicode_isalpha :: "'c \<Rightarrow> bool"
  unicode_isalnum :: "'c \<Rightarrow> bool"
  unicode_isspace :: "'c \<Rightarrow> bool"
  unicode_upper :: "'c \<Rightarrow> 'c list"

text \<open>A string literal of the source.\<close>

definition lit :: "'c unicode \<Rightarrow> string \<Rightarrow> 'c list" where
  "lit U s = map (of_ascii U) s"

text \<open>\<^verbatim>\<open>s.isalpha()\<close> and \<^verbatim>\<open>s.isalnum()\<close> are false on the empty string.\<close>

definition py_isalpha :: "'c unicode \<Rightarrow> 'c list \<Rightarrow> bool" where
  "py_isalpha U s = (s \<noteq> [] \<and> list_all (unicode_isalpha U) s)"

definition py_isalnum :: "'c unicode \<Rightarrow> 'c list \<Rightarrow> bool" where
  "py_isalnum U s = (s \<noteq> [] \<and> list_all (unicode_isalnum U) s)"

text \<open>\<^verbatim>\<open>s.upper()\<close> maps every code point on its own; the result can be longer than \<open>s\<close>.\<close>

definition py_upper :: "'c unicode \<Rightarrow> 'c list \<Rightarrow> 'c list" where
  "py_upper U s = concat (map (unicode_upper U) s)"

text \<open>\<^verbatim>\<open>s.strip()\<close> removes the whitespace at both ends.\<close>

definition py_strip :: "'c unicode \<Rightarrow> 'c list \<Rightarrow> 'c list" where
  "py_strip U s =
     rev (dropWhile (unicode_isspace U) (rev (dropWhile (unicode_isspace U) s)))"

definition ascii_lowercase :: string where
  "ascii_lowercase = ''abcdefghijklmnopqrstuvwxyz''"

definition ascii_uppercase :: string where
  "ascii_uppercase = ''ABCDEFGHIJKLMNOPQRSTUVWXYZ''"

definition lower_char :: "char \<Rightarrow> char" where
  "lower_char c = (case map_of (zip ascii_uppercase ascii_lowercase) c of
                     Some l \<Rightarrow> l | None \<Rightarrow> c)"

definition py_lower :: "string \<Rightarrow> string" where
  "py_lower s = map lower_char s"

text \<open>\<^verbatim>\<open>needle in hay\<close> on strings: \<open>needle\<close> occurs as a contiguous substring.\<close>

fun py_in :: "string \<Rightarrow> string \<Rightarrow> bool" where
  "py_in needle [] = (needle = [])"
| "py_in needle (c # cs) = (prefix needle (c # cs) \<or> py_in needle cs)"

text \<open>
  \<^verbatim>\<open>s.replace(old, new)\<close>: the occurrences of \<open>old\<close> are found from the left and do not
  overlap; with an empty \<open>old\<close>, \<open>new\<close> is inserted before every character and at the end.
\<close>

function str_replace :: "string \<Rightarrow> string \<Rightarrow> string \<Rightarrow> string" where
  "str_replace [] old new = []"
| "str_replace (c # cs) old new =
     (if old \<noteq> [] \<and> prefix old (c # cs)
      then new @ str_replace (drop (length old) (c # cs)) old new
      else c # str_replace cs old new)"
  by pat_completeness auto
termination
  by (relation "measure (\<lambda>(s, old, new). length s)") (auto simp: neq_Nil_conv)

definition py_replace :: "string \<Rightarrow> string \<Rightarrow> string \<Rightarrow> string" where
  "py_replace s old new =
     (if old = [] then new @ concat (map (\<lambda>c. c # new) s) else str_replace s old new)"

text \<open>\<^verbatim>\<open>sep.join(parts)\<close>.\<close>

fun py_join :: "string \<Rightarrow> string list \<Rightarrow> string" where
  "py_join sep [] = []"
| "py_join sep [x] = x"
| "py_join sep (x # y # ys) = x @ sep @ py_join sep (y # ys)"

text \<open>\<^verbatim>\<open>xs[i]\<close> for a non-negative index.\<close>

definition py_index :: "'a list \<Rightarrow> nat \<Rightarrow> py_error + 'a" where
  "py_index xs i = (if i < length xs then Inr (xs ! i) else Inl IndexError)"

section \<open>Code validator and classifier\<close>

text \<open>The table of the source, as the list of its literal keys and names, in source order.\<close>

definition IFSC_BANK_MAP :: "(string \<times> string) list" where
  "IFSC_BANK_MAP = [
   (''SBIN'', ''STATE BANK OF INDIA''),
   (''ALLA'', ''ALLAHABAD BANK''),
   (''ANDB'', ''ANDHRA BANK''),
   (''BARB'', ''BANK OF BARODA''),
   (''BKID'', ''BANK OF INDIA''),
   (''MAHB'', ''BANK OF MAHARASHTRA''),
   (''CNRB'', ''CANARA BANK''),
   (''CBIN'', ''CENTRAL BANK OF INDIA''),
   (''CORP'', ''CORPORATION BANK''),
   (''BKDN'', ''DENA BANK''),
   (''IBKL'', ''IDBI BANK''),
   (''IDIB'', ''INDIAN BANK''),
   (''IOBA'', ''INDIAN OVERSEAS BANK''),
   (''ORBC'', ''ORIENTAL BANK OF COMMERCE''),
   (''PSIB'', ''PUNJAB & SIND BANK''),
   (''PUNB'', ''PUNJAB NATIONAL BANK''),
   (''SBBJ'', ''STATE BANK OF BIKANER & JAIPUR''),
   (''SBHY'', ''STATE BANK OF HYDERABAD''),
   (''SBMY'', ''STATE BANK OF MYSORE''),
   (''STBP'', ''STATE BANK OF PATIALA''),
   (''SBTR'', ''STATE BANK OF TRAVANCORE''),
   (''SYNB'', ''SYNDICATE BANK''),
   (''UCBA'', ''UCO BANK''),
   (''UBIN'', ''UNION BANK OF INDIA''),
   (''UTBI'', ''UNITED BANK OF INDIA''),
   (''VIJB'', ''VIJAYA BANK''),
   (''BMBL'', ''BHARTIYA MAHILA BANK''),
   (''UTIB'', ''AXIS BANK''),
   (''HDFC'', ''HDFC BANK''),
   (''ICIC'', ''ICICI BANK''),
   (''INDB'', ''INDUSIND BANK''),
   (''KKBK'', ''KOTAK MAHINDRA BANK''),
   (''YESB'', ''YES BANK''),
   (''DCBL'', ''DCB BANK''),
   (''FDRL'', ''FEDERAL BANK''),
   (''KARB'', ''KARNATAKA BANK''),
   (''KVBL'', ''KARUR VYSYA BANK''),
   (''RATN'', ''RBL BANK''),
   (''SIBL'', ''SOUTH INDIAN BANK''),
   (''TMBL'', ''TAMILNAD MERCANTILE BANK''),
   (''VYSA'', ''ING VYSYA BANK''),
   (''ABHY'', ''ABHYUDAYA CO-OP BANK''),
   (''ASBL'', ''APNA SAHAKARI BANK''),
   (''GSCB'', ''GUJARAT STATE CO-OP BANK''),
   (''HCBL'', ''HASTI CO-OP BANK''),
   (''JSBP'', ''JANATA SAHAKARI BANK''),
   (''MSNU'', ''MEHSANA URBAN CO-OP BANK''),
   (''NTBL'', ''NAINITAL BANK''),
   (''NKGS'', ''NKGSB CO-OP BANK''),
   (''PMCB'', ''PUNJAB & MAHARASHTRA CO-OP BANK''),
   (''SRCB'', ''SARASWAT BANK''),
   (''CIUB'', ''CITY UNION BANK''),
   (''CSBK'', ''CATHOLIC SYRIAN BANK''),
   (''DLXB'', ''DHANLAXMI BANK''),
   (''ESFB'', ''EQUITAS SMALL FINANCE BANK''),
   (''IDFB'', ''IDFC FIRST BANK''),
   (''JAKA'', ''JAMMU & KASHMIR BANK''),
   (''LAVB'', ''LAKSHMI VILAS BANK''),
   (''NSPB'', ''NSDL PAYMENTS BANK''),
   (''PAYU'', ''PAYU PAYMENTS PRIVATE LIMITED''),
   (''PYTM'', ''PAYTM PAYMENTS BANK'')]"

text \<open>\<^verbatim>\<open>IFSC_BANK_MAP.get(bank_code)\<close>: the keys and names are literals of the source.\<close>

definition bank_map_get :: "'c unicode \<Rightarrow> 'c list \<Rightarrow> 'c list option" where
  "bank_map_get U bank_code =
     map_of (map (\<lambda>(k, v). (lit U k, lit U v)) IFSC_BANK_MAP) bank_code"

text \<open>
  \<^verbatim>\<open>get_bank_name\<close>. The argument is \<open>None\<close> for Python's \<^verbatim>\<open>None\<close>, which the f-string
  prints as \<^verbatim>\<open>None\<close>. \<^verbatim>\<open>if bank_name:\<close> is false on a missing key and on an empty name.
\<close>

definition get_bank_name :: "'c unicode \<Rightarrow> 'c list option \<Rightarrow> 'c list" where
  "get_bank_name U ifsc_code =
     (case ifsc_code of
        None \<Rightarrow> lit U ''UNKNOWN BANK (None)''
      | Some code \<Rightarrow>
          if code = [] \<or> length code < 4 then lit U ''UNKNOWN BANK ('' @ code @ lit U '')''
          else
            (let bank_code = py_upper U (take 4 code) in
             case bank_map_get U bank_code of
               Some bank_name \<Rightarrow>
                 if bank_name \<noteq> [] then bank_name else bank_code @ lit U '' BANK''
             | None \<Rightarrow> bank_code @ lit U '' BANK''))"

text \<open>
  \<^verbatim>\<open>validate_ifsc\<close>. The only operation that can raise on a string is \<^verbatim>\<open>ifsc_code[4]\<close>.
\<close>

definition validate_ifsc :: "'c unicode \<Rightarrow> 'c list \<Rightarrow> py_error + bool" where
  "validate_ifsc U ifsc_code =
     (if length ifsc_code \<noteq> 11 then Inr False
      else if \<not> py_isalpha U (take 4 ifsc_code) then Inr False
      else
        (case py_index ifsc_code 4 of
           Inl e \<Rightarrow> Inl e
         | Inr c \<Rightarrow>
             if c \<noteq> of_ascii U CHR ''0'' then Inr False
             else if \<not> py_isalnum U (drop 5 ifsc_code) then Inr False
             else Inr True))"

section \<open>Record grouper\<close>

text \<open>
  An input row carries \<^verbatim>\<open>str(row[col])\<close> of the three columns that the column detection
  of \<^verbatim>\<open>read_excel_data\<close> has selected. An account is the dictionary built for a valid row.
  \<^verbatim>\<open>grouped\<close> is a \<^verbatim>\<open>defaultdict(list)\<close>: keys in insertion order, each with its list.
\<close>

record 'c input_row =
  account_cell :: "'c list"
  name_cell :: "'c list"
  ifsc_cell :: "'c list"

record 'c account =
  account_no :: "'c list"
  account_name :: "'c list"
  ifsc :: "'c list"

type_synonym 'c grouped = "('c list \<times> 'c account list) list"

text \<open>\<^verbatim>\<open>grouped[key].append(v)\<close>.\<close>

fun dict_append :: "'c grouped \<Rightarrow> 'c list \<Rightarrow> 'c account \<Rightarrow> 'c grouped" where
  "dict_append [] key v = [(key, [v])]"
| "dict_append ((k, vs) # g) key v =
     (if k = key then (k, vs @ [v]) # g else (k, vs) # dict_append g key v)"

text \<open>The loop over the rows, with the two accumulators of the source.\<close>

fun group_rows ::
  "'c unicode \<Rightarrow> 'c input_row list \<Rightarrow> 'c grouped \<Rightarrow> 'c list list
     \<Rightarrow> py_error + ('c grouped \<times> 'c list list)" where
  "group_rows U [] grouped invalid_ifsc = Inr (grouped, invalid_ifsc)"
| "group_rows U (row # rows) grouped invalid_ifsc =
     (let code = py_upper U (py_strip U (ifsc_cell row)) in
      case validate_ifsc U code of
        Inl e \<Rightarrow> Inl e
      | Inr ok \<Rightarrow>
          if \<not> ok then group_rows U rows grouped (invalid_ifsc @ [code])
          else group_rows U rows
                 (dict_append grouped code
                    \<lparr>account_no = py_strip U (account_cell row),
                     account_name = py_strip U (name_cell row),
                     ifsc = code\<rparr>)
                 invalid_ifsc)"

text \<open>
  \<^verbatim>\<open>read_excel_data\<close> from the parsed frame on: the frame is the outcome of the reader
  (an error when the file cannot be read). Any exception makes the function return
  \<^verbatim>\<open>None\<close>. The list of invalid codes is what the warning prints.
\<close>

definition read_excel_data ::
  "'c unicode \<Rightarrow> py_error + 'c input_row list \<Rightarrow> ('c grouped \<times> 'c list list) option" where
  "read_excel_data U frame =
     (case frame of
        Inl e \<Rightarrow> None
      | Inr rows \<Rightarrow>
          (case group_rows U rows [] [] of
             Inl e \<Rightarrow> None
           | Inr res \<Rightarrow> Some res))"

section \<open>The character database on ASCII text\<close>

text \<open>
  The samples are texts of code points below 128, written as HOL strings. On these code
  points the classes and the uppercase mapping of the database are the following ones.
  \<open>ascii_unicode\<close> is used to run the definitions on the samples; it takes every other
  character for a symbol without case, and no sample contains one.
\<close>

definition digits :: string where
  "digits = ''0123456789''"

definition whitespace :: string where
  "whitespace = [CHR 0x09, CHR 0x0A, CHR 0x0B, CHR 0x0C, CHR 0x0D,
                 CHR 0x1C, CHR 0x1D, CHR 0x1E, CHR 0x1F, CHR 0x20]"

definition ascii_isalpha :: "char \<Rightarrow> bool" where
  "ascii_isalpha c = (c \<in> set (ascii_lowercase @ ascii_uppercase))"

definition ascii_isalnum :: "char \<Rightarrow> bool" where
  "ascii_isalnum c = (ascii_isalpha c \<or> c \<in> set digits)"

definition ascii_isspace :: "char \<Rightarrow> bool" where
  "ascii_isspace c = (c \<in> set whitespace)"

definition ascii_upper :: "char \<Rightarrow> string" where
  "ascii_upper c = (case map_of (zip ascii_lowercase ascii_uppercase) c of
                      Some u \<Rightarrow> [u] | None \<Rightarrow> [c])"

definition ascii_unicode :: "char unicode" where
  "ascii_unicode =
     \<lparr>of_ascii = (\<lambda>c. c), unicode_isalpha = ascii_isalpha, unicode_isalnum = ascii_isalnum,
      unicode_isspace = ascii_isspace, unicode_upper = ascii_upper\<rparr>"

text \<open>A sample input: two rows of one branch, one of another, and one invalid code.\<close>

definition sample_rows :: "char input_row list" where
  "sample_rows =
     [\<lparr>account_cell = ''1001'', name_cell = '' Asha '', ifsc_cell = '' sbin0001234''\<rparr>,
      \<lparr>account_cell = ''1002'', name_cell = ''Ravi'', ifsc_cell = ''HDFC0000001''\<rparr>,
      \<lparr>account_cell = ''1003'', name_cell = ''Meena'', ifsc_cell = ''SBIN0001234''\<rparr>,
      \<lparr>account_cell = ''1004'', name_cell = ''Kiran'', ifsc_cell = ''BAD''\<rparr>]"

definition sample_grouped :: "char grouped" where
  "sample_grouped =
     [(''SBIN0001234'',
         [\<lparr>account_no = ''1001'', account_name = ''Asha'', ifsc = ''SBIN0001234''\<rparr>,
          \<lparr>account_no = ''1003'', account_name = ''Meena'', ifsc = ''SBIN0001234''\<rparr>]),
      (''HDFC0000001'',
         [\<lparr>account_no = ''1002'', account_name = ''Ravi'', ifsc = ''HDFC0000001''\<rparr>])]"

section \<open>The template document\<close>

text \<open>
  The document is the tree that the \<^verbatim>\<open>docx\<close> library exposes and the program reads and
  writes: body paragraphs made of runs, and tables made of rows of cells that hold
  paragraphs. Only the attributes the program touches are kept. Lengths are in English
  metric units as in the library, cell widths and margins in twentieths of a point as in
  the file. A table is the list of its rows and a row the list of its own cells; merged
  cells and tables nested in cells are outside the model. An absent attribute is \<open>None\<close>.
  The names of the source functions are kept without their leading underscore.
\<close>

datatype wd_align_paragraph = Para_LEFT | Para_CENTER | Para_RIGHT | Para_JUSTIFY

datatype wd_table_alignment = Tbl_LEFT | Tbl_CENTER | Tbl_RIGHT

datatype wd_align_vertical = V_TOP | V_CENTER | V_BOTTOM

datatype wd_row_height_rule = AUTO | AT_LEAST | EXACTLY

record run =
  r_text :: string
  r_font_name :: "string option"
  r_font_size :: "nat option"
  r_bold :: "bool option"
  r_color :: "(nat \<times> nat \<times> nat) option"

record para =
  p_runs :: "run list"
  p_style :: "string option"
  p_alignment :: "wd_align_paragraph option"
  p_space_before :: "nat option"
  p_space_after :: "nat option"
  p_line_spacing :: "nat option"
  p_left_indent :: "nat option"
  p_right_indent :: "nat option"
  p_first_line_indent :: "nat option"

text \<open>A border element: edge, \<^verbatim>\<open>val\<close>, \<^verbatim>\<open>sz\<close>, \<^verbatim>\<open>space\<close>, \<^verbatim>\<open>color\<close>.\<close>

type_synonym border = "string \<times> string \<times> string \<times> string \<times> string"

text \<open>
  A cell keeps the \<^verbatim>\<open>tcMar\<close> and \<^verbatim>\<open>tcBorders\<close> elements of its properties in document
  order, since the program appends a new element each time. A margin element is
  (top, left, bottom, right).
\<close>

record cell =
  c_paragraphs :: "para list"
  c_width :: "int option"
  c_margins :: "(nat \<times> nat \<times> nat \<times> nat) list"
  c_borders :: "border list list"
  c_vertical_alignment :: "wd_align_vertical option"

record row =
  row_cells :: "cell list"
  row_height :: "nat option"
  row_height_rule :: "wd_row_height_rule option"

text \<open>\<open>t_grid\<close> is the table grid: one entry per grid column, with its width if it has one.\<close>

record table =
  t_grid :: "int option list"
  t_rows :: "row list"
  t_alignment :: "wd_table_alignment option"
  t_style :: "string option"
  t_borders :: "border list list"

record document =
  d_paragraphs :: "para list"
  d_tables :: "table list"
  d_styles :: "string list"

definition Pt :: "nat \<Rightarrow> nat" where
  "Pt points = 12700 * points"

text \<open>Truth values of an optional string and of an optional number, as \<^verbatim>\<open>if x:\<close> reads them.\<close>

definition truthy_str :: "string option \<Rightarrow> bool" where
  "truthy_str x = (case x of None \<Rightarrow> False | Some s \<Rightarrow> s \<noteq> [])"

definition truthy_nat :: "nat option \<Rightarrow> bool" where
  "truthy_nat x = (case x of None \<Rightarrow> False | Some n \<Rightarrow> n \<noteq> 0)"

subsection \<open>Library operations\<close>

definition new_run :: "string \<Rightarrow> run" where
  "new_run t = \<lparr>r_text = t, r_font_name = None, r_font_size = None, r_bold = None,
               r_color = None\<rparr>"

definition new_paragraph :: para where
  "new_paragraph = \<lparr>p_runs = [], p_style = None, p_alignment = None, p_space_before = None,
                    p_space_after = None, p_line_spacing = None, p_left_indent = None,
                    p_right_indent = None, p_first_line_indent = None\<rparr>"

text \<open>\<^verbatim>\<open>paragraph.text\<close>, read and written. Writing leaves one run without formatting.\<close>

definition paragraph_text :: "para \<Rightarrow> string" where
  "paragraph_text p = concat (map r_text (p_runs p))"

definition set_paragraph_text :: "para \<Rightarrow> string \<Rightarrow> para" where
  "set_paragraph_text p t = p\<lparr>p_runs := [new_run t]\<rparr>"

text \<open>\<^verbatim>\<open>cell.text\<close>, read and written. Writing leaves one new paragraph with one run.\<close>

definition cell_text :: "cell \<Rightarrow> string" where
  "cell_text c = py_join [CHR 0x0A] (map paragraph_text (c_paragraphs c))"

definition set_cell_text :: "cell \<Rightarrow> string \<Rightarrow> cell" where
  "set_cell_text c t = c\<lparr>c_paragraphs := [new_paragraph\<lparr>p_runs := [new_run t]\<rparr>]\<rparr>"

text \<open>\<^verbatim>\<open>table.add_row()\<close>: one cell per grid column, each with an empty paragraph.\<close>

definition new_cell :: "int option \<Rightarrow> cell" where
  "new_cell w = \<lparr>c_paragraphs = [new_paragraph], c_width = w, c_margins = [],
                c_borders = [], c_vertical_alignment = None\<rparr>"

definition add_row :: "table \<Rightarrow> row" where
  "add_row t = \<lparr>row_cells = map new_cell (t_grid t), row_height = None,
               row_height_rule = None\<rparr>"

text \<open>
  \<^verbatim>\<open>table.cell(row_idx, col_idx)\<close>: the library looks the cell up at index
  \<open>col_idx + row_idx * column_count\<close> of the row-major list of all cells. \<open>locate\<close> finds
  the row and the position in the row of that index.
\<close>

fun locate :: "row list \<Rightarrow> nat \<Rightarrow> nat \<Rightarrow> (nat \<times> nat) option" where
  "locate [] i k = None"
| "locate (r # rs) i k =
     (if k < length (row_cells r) then Some (i, k)
      else locate rs (Suc i) (k - length (row_cells r)))"

definition table_cell :: "table \<Rightarrow> nat \<Rightarrow> nat \<Rightarrow> py_error + (nat \<times> nat)" where
  "table_cell t row_idx col_idx =
     (case locate (t_rows t) 0 (col_idx + row_idx * length (t_grid t)) of
        None \<Rightarrow> Inl IndexError
      | Some pos \<Rightarrow> Inr pos)"

definition update_cell :: "table \<Rightarrow> nat \<times> nat \<Rightarrow> (cell \<Rightarrow> cell) \<Rightarrow> table" where
  "update_cell t pos f =
     (case pos of (i, j) \<Rightarrow>
        t\<lparr>t_rows := (t_rows t)[i := (t_rows t ! i)
             \<lparr>row_cells := (row_cells (t_rows t ! i))[j := f (row_cells (t_rows t ! i) ! j)]\<rparr>]\<rparr>)"

subsection \<open>Tone\<close>

definition detect_tone :: "document \<Rightarrow> string" where
  "detect_tone doc =
     (let text = py_join '' '' (map (\<lambda>p. py_lower (paragraph_text p)) (d_paragraphs doc)) in
      if list_ex (\<lambda>k. py_in k text) [''urgent'', ''immediate'', ''final notice'', ''last reminder'']
      then ''urgent''
      else if list_ex (\<lambda>k. py_in k text) [''kindly'', ''please'', ''request'', ''cooperate'']
      then ''friendly''
      else ''formal'')"

text \<open>The first two statements of \<^verbatim>\<open>_apply_tone\<close>: the tone that the rest of it uses.\<close>

definition resolve_tone :: "document \<Rightarrow> string \<Rightarrow> string" where
  "resolve_tone doc tone =
     (let tone1 = (if tone = ''auto'' then detect_tone doc else tone) in
      if tone1 \<notin> set [''formal'', ''urgent'', ''friendly''] then ''formal'' else tone1)"

definition tone_paragraph :: "string \<Rightarrow> string option \<Rightarrow> nat option \<Rightarrow> para \<Rightarrow> para" where
  "tone_paragraph tone font_name font_size p =
     (let p1 = (if truthy_str font_name \<and> truthy_nat font_size
                then p\<lparr>p_runs := map (\<lambda>r. r\<lparr>r_font_name := font_name,
                                             r_font_size := map_option Pt font_size\<rparr>) (p_runs p)\<rparr>
                else p);
          p2 = (if tone = ''urgent''
                   \<and> list_ex (\<lambda>k. py_in k (py_lower (paragraph_text p1))) [''notice'', ''urgent'']
                then p1\<lparr>p_runs := map (\<lambda>r. r\<lparr>r_bold := Some True,
                                              r_color := Some (0x99, 0x00, 0x00)\<rparr>) (p_runs p1)\<rparr>
                else p1)
      in p2\<lparr>p_alignment := Some Para_LEFT\<rparr>)"

definition tone_table :: "table \<Rightarrow> table" where
  "tone_table t =
     t\<lparr>t_alignment := Some Tbl_CENTER,
       t_rows := map (\<lambda>r. r\<lparr>row_cells :=
                   map (\<lambda>c. c\<lparr>c_vertical_alignment := Some V_CENTER\<rparr>) (row_cells r)\<rparr>)
                 (t_rows t)\<rparr>"

definition apply_tone :: "document \<Rightarrow> string \<Rightarrow> string option \<Rightarrow> nat option \<Rightarrow> document" where
  "apply_tone doc tone font_name_override font_size_override =
     (let tone1 = resolve_tone doc tone in
      doc\<lparr>d_paragraphs :=
             map (tone_paragraph tone1 font_name_override font_size_override) (d_paragraphs doc),
          d_tables := map tone_table (d_tables doc)\<rparr>)"

subsection \<open>Cell and paragraph helpers\<close>

definition set_cell_margins :: "cell \<Rightarrow> nat \<Rightarrow> nat \<Rightarrow> nat \<Rightarrow> nat \<Rightarrow> cell" where
  "set_cell_margins c m_top m_left m_bottom m_right =
     c\<lparr>c_margins := c_margins c @ [(m_top, m_left, m_bottom, m_right)]\<rparr>"

definition single_border :: "string \<Rightarrow> border" where
  "single_border edge = (edge, ''single'', ''8'', ''0'', ''000000'')"

definition set_cell_borders :: "cell \<Rightarrow> cell" where
  "set_cell_borders c =
     c\<lparr>c_borders := c_borders c @ [map single_border [''top'', ''left'', ''bottom'', ''right'']]\<rparr>"

definition set_table_borders :: "table \<Rightarrow> table" where
  "set_table_borders t =
     t\<lparr>t_borders := t_borders t
        @ [map single_border [''top'', ''left'', ''bottom'', ''right'', ''insideH'', ''insideV'']]\<rparr>"

type_synonym spacing = "nat option \<times> nat option \<times> nat option"

definition apply_spacing :: "spacing \<Rightarrow> para \<Rightarrow> para" where
  "apply_spacing sp p =
     (case sp of (sb, sa, ls) \<Rightarrow>
        (let p1 = (if sb \<noteq> None then p\<lparr>p_space_before := sb\<rparr> else p);
             p2 = (if sa \<noteq> None then p1\<lparr>p_space_after := sa\<rparr> else p1)
         in if ls \<noteq> None then p2\<lparr>p_line_spacing := ls\<rparr> else p2))"

definition apply_paragraph_style ::
  "para list \<Rightarrow> string \<Rightarrow> nat \<Rightarrow> spacing option \<Rightarrow> para list" where
  "apply_paragraph_style paragraphs font_name font_size spacing =
     map (\<lambda>p.
            (let p1 = p\<lparr>p_runs := map (\<lambda>r. r\<lparr>r_font_name := Some font_name,
                                              r_font_size := Some (Pt font_size)\<rparr>) (p_runs p)\<rparr>
             in case spacing of None \<Rightarrow> p1 | Some sp \<Rightarrow> apply_spacing sp p1))
         paragraphs"

definition get_cell_width :: "cell \<Rightarrow> int option" where
  "get_cell_width c = c_width c"

definition set_cell_width :: "cell \<Rightarrow> int option \<Rightarrow> cell" where
  "set_cell_width c width_twips =
     (case width_twips of None \<Rightarrow> c | Some w \<Rightarrow> c\<lparr>c_width := Some w\<rparr>)"

subsection \<open>Baselines read from the template\<close>

text \<open>
  The scan of \<^verbatim>\<open>_extract_template_baseline\<close> over the runs of one paragraph, and over the
  paragraphs. A font size is a length; \<^verbatim>\<open>int(size.pt)\<close> is its number of whole points.
  The scan stops at the first run after which both variables are set.
\<close>

fun scan_runs :: "run list \<Rightarrow> string option \<Rightarrow> nat option \<Rightarrow> string option \<times> nat option" where
  "scan_runs [] font_name font_size = (font_name, font_size)"
| "scan_runs (r # rs) font_name font_size =
     (let font_name1 = (if truthy_str (r_font_name r) then r_font_name r else font_name);
          font_size1 = (if truthy_nat (r_font_size r)
                        then map_option (\<lambda>emu. emu div 12700) (r_font_size r)
                        else font_size)
      in if truthy_str font_name1 \<and> truthy_nat font_size1 then (font_name1, font_size1)
         else scan_runs rs font_name1 font_size1)"

fun scan_paragraphs :: "para list \<Rightarrow> string option \<Rightarrow> nat option \<Rightarrow> string option \<times> nat option" where
  "scan_paragraphs [] font_name font_size = (font_name, font_size)"
| "scan_paragraphs (p # ps) font_name font_size =
     (case scan_runs (p_runs p) font_name font_size of
        (font_name1, font_size1) \<Rightarrow>
          if truthy_str font_name1 \<and> truthy_nat font_size1 then (font_name1, font_size1)
          else scan_paragraphs ps font_name1 font_size1)"

definition or_str :: "string option \<Rightarrow> string \<Rightarrow> string" where
  "or_str x fallback = (case x of None \<Rightarrow> fallback | Some s \<Rightarrow> if s \<noteq> [] then s else fallback)"

definition or_nat :: "nat option \<Rightarrow> nat \<Rightarrow> nat" where
  "or_nat x fallback = (case x of None \<Rightarrow> fallback | Some n \<Rightarrow> if n \<noteq> 0 then n else fallback)"

text \<open>The test on the header row that selects the accounts table.\<close>

definition is_accounts_header :: "row \<Rightarrow> bool" where
  "is_accounts_header r =
     (let header_text = py_lower (concat (map cell_text (row_cells r))) in
      py_in ''account'' header_text \<and> py_in ''ifsc'' header_text)"

text \<open>The spacing of the first paragraph of the first header cell; \<open>None\<close> when there is none.\<close>

definition header_spacing_of :: "row \<Rightarrow> spacing option" where
  "header_spacing_of r =
     (case row_cells r of
        [] \<Rightarrow> None
      | c # _ \<Rightarrow>
          (case c_paragraphs c of
             [] \<Rightarrow> None
           | hp # _ \<Rightarrow> Some (p_space_before hp, p_space_after hp, p_line_spacing hp)))"

type_synonym header_baseline = "int option list option \<times> nat option \<times> spacing option"

fun find_header_baseline :: "table list \<Rightarrow> py_error + header_baseline" where
  "find_header_baseline [] = Inr (None, None, None)"
| "find_header_baseline (t # ts) =
     (if length (t_grid t) = 3 then
        (case py_index (t_rows t) 0 of
           Inl e \<Rightarrow> Inl e
         | Inr header_row \<Rightarrow>
             if is_accounts_header header_row
             then Inr (Some (map get_cell_width (row_cells header_row)),
                       row_height header_row,
                       header_spacing_of header_row)
             else find_header_baseline ts)
      else find_header_baseline ts)"

definition extract_template_baseline ::
  "document \<Rightarrow> string \<Rightarrow> nat \<Rightarrow> py_error + (string \<times> nat \<times> header_baseline)" where
  "extract_template_baseline doc fallback_font_name fallback_font_size =
     (case scan_paragraphs (d_paragraphs doc) None None of
        (font_name, font_size) \<Rightarrow>
          (case find_header_baseline (d_tables doc) of
             Inl e \<Rightarrow> Inl e
           | Inr hb \<Rightarrow>
               Inr (or_str font_name fallback_font_name, or_nat font_size fallback_font_size, hb)))"

record nodal_baseline =
  nb_style_name :: "string option"
  nb_alignment :: "wd_align_paragraph option"
  nb_spacing :: "spacing option"
  nb_indent :: "(nat option \<times> nat option \<times> nat option) option"
  nb_font_name :: string
  nb_font_size :: nat
  nb_bold :: "bool option"

text \<open>The paragraph after the first one that mentions the nodal officer, if there is one.\<close>

fun nodal_next :: "para list \<Rightarrow> para option" where
  "nodal_next [] = None"
| "nodal_next (p # ps) =
     (if py_in ''nodal officer'' (py_lower (paragraph_text p))
      then (case ps of [] \<Rightarrow> None | np # _ \<Rightarrow> Some np)
      else nodal_next ps)"

fun nodal_runs ::
  "run list \<Rightarrow> string option \<Rightarrow> nat option \<Rightarrow> bool option
     \<Rightarrow> string option \<times> nat option \<times> bool option" where
  "nodal_runs [] font_name font_size bold = (font_name, font_size, bold)"
| "nodal_runs (r # rs) font_name font_size bold =
     nodal_runs rs
       (if truthy_str (r_font_name r) \<and> \<not> truthy_str font_name then r_font_name r else font_name)
       (if truthy_nat (r_font_size r) \<and> \<not> truthy_nat font_size
        then map_option (\<lambda>emu. emu div 12700) (r_font_size r) else font_size)
       (if bold = None \<and> r_bold r \<noteq> None then r_bold r else bold)"

definition extract_nodal_baseline :: "document \<Rightarrow> string \<Rightarrow> nat \<Rightarrow> nodal_baseline" where
  "extract_nodal_baseline doc fallback_font fallback_size =
     (case nodal_next (d_paragraphs doc) of
        None \<Rightarrow>
          \<lparr>nb_style_name = None, nb_alignment = None, nb_spacing = None, nb_indent = None,
           nb_font_name = fallback_font, nb_font_size = fallback_size, nb_bold = None\<rparr>
      | Some np \<Rightarrow>
          (case nodal_runs (p_runs np) None None None of
             (font_name, font_size, bold) \<Rightarrow>
               \<lparr>nb_style_name = p_style np,
                nb_alignment = p_alignment np,
                nb_spacing = Some (p_space_before np, p_space_after np, p_line_spacing np),
                nb_indent = Some (p_left_indent np, p_right_indent np, p_first_line_indent np),
                nb_font_name = or_str font_name fallback_font,
                nb_font_size = or_nat font_size fallback_size,
                nb_bold = bold\<rparr>))"

definition apply_indent :: "nat option \<times> nat option \<times> nat option \<Rightarrow> para \<Rightarrow> para" where
  "apply_indent ind p =
     (case ind of (li, ri, fi) \<Rightarrow>
        (let p1 = (if li \<noteq> None then p\<lparr>p_left_indent := li\<rparr> else p);
             p2 = (if ri \<noteq> None then p1\<lparr>p_right_indent := ri\<rparr> else p1)
         in if fi \<noteq> None then p2\<lparr>p_first_line_indent := fi\<rparr> else p2))"

text \<open>
  \<^verbatim>\<open>_apply_baseline_to_paragraph\<close>. \<open>styles\<close> are the style names of the document; looking up
  a name that is not among them raises, and the source ignores that exception.
\<close>

definition apply_baseline_to_paragraph ::
  "para \<Rightarrow> string \<Rightarrow> nodal_baseline \<Rightarrow> string list \<Rightarrow> para" where
  "apply_baseline_to_paragraph paragraph text baseline styles =
     (let p1 = set_paragraph_text paragraph text;
          p2 = (if truthy_str (nb_style_name baseline)
                   \<and> (case nb_style_name baseline of None \<Rightarrow> False | Some n \<Rightarrow> n \<in> set styles)
                then p1\<lparr>p_style := nb_style_name baseline\<rparr> else p1);
          p3 = (if nb_alignment baseline \<noteq> None
                then p2\<lparr>p_alignment := nb_alignment baseline\<rparr> else p2);
          p4 = (case nb_spacing baseline of None \<Rightarrow> p3 | Some sp \<Rightarrow> apply_spacing sp p3);
          p5 = (case nb_indent baseline of None \<Rightarrow> p4 | Some ind \<Rightarrow> apply_indent ind p4)
      in p5\<lparr>p_runs :=
             map (\<lambda>r.
                    (let r1 = r\<lparr>r_font_name := Some (nb_font_name baseline)\<rparr>;
                         r2 = (if nb_font_size baseline \<noteq> 0
                               then r1\<lparr>r_font_size := Some (Pt (nb_font_size baseline))\<rparr> else r1)
                     in if nb_bold baseline \<noteq> None then r2\<lparr>r_bold := nb_bold baseline\<rparr> else r2))
                 (p_runs p5)\<rparr>)"

section \<open>Document mutator\<close>

subsection \<open>Placeholder replacement\<close>

definition replace_in_paragraph :: "string \<Rightarrow> string \<Rightarrow> para \<Rightarrow> para" where
  "replace_in_paragraph placeholder bank_name p =
     (if py_in placeholder (paragraph_text p)
      then set_paragraph_text p (py_replace (paragraph_text p) placeholder bank_name)
      else p)"

definition replace_in_table :: "string \<Rightarrow> string \<Rightarrow> table \<Rightarrow> table" where
  "replace_in_table placeholder bank_name t =
     t\<lparr>t_rows :=
         map (\<lambda>r. r\<lparr>row_cells :=
                map (\<lambda>c. c\<lparr>c_paragraphs :=
                       map (replace_in_paragraph placeholder bank_name) (c_paragraphs c)\<rparr>)
                    (row_cells r)\<rparr>)
             (t_rows t)\<rparr>"

definition replace_placeholder :: "document \<Rightarrow> string \<Rightarrow> string \<Rightarrow> document" where
  "replace_placeholder doc placeholder bank_name =
     doc\<lparr>d_paragraphs := map (replace_in_paragraph placeholder bank_name) (d_paragraphs doc),
         d_tables := map (replace_in_table placeholder bank_name) (d_tables doc)\<rparr>"

subsection \<open>The accounts table\<close>

text \<open>\<^verbatim>\<open>header_row_height or Pt(tmpl_size + 6)\<close>: an absent height and a zero height are false.\<close>

definition row_height_or_default :: "nat option \<Rightarrow> nat \<Rightarrow> nat" where
  "row_height_or_default header_row_height tmpl_size =
     or_nat header_row_height (Pt (tmpl_size + 6))"

definition restyle_header_cell :: "string \<Rightarrow> nat \<Rightarrow> spacing option \<Rightarrow> cell \<Rightarrow> cell" where
  "restyle_header_cell tmpl_font tmpl_size header_spacing c =
     set_cell_margins
       (c\<lparr>c_paragraphs :=
            map (\<lambda>p. p\<lparr>p_runs := map (\<lambda>r. r\<lparr>r_bold := Some True\<rparr>) (p_runs p)\<rparr>)
                (apply_paragraph_style (c_paragraphs c) tmpl_font tmpl_size header_spacing)\<rparr>)
       36 36 36 36"

definition style_account_cell :: "string \<Rightarrow> nat \<Rightarrow> spacing option \<Rightarrow> cell \<Rightarrow> cell" where
  "style_account_cell tmpl_font tmpl_size header_spacing c =
     set_cell_margins
       (set_cell_borders
          (c\<lparr>c_paragraphs :=
               apply_paragraph_style (c_paragraphs c) tmpl_font tmpl_size header_spacing\<rparr>))
       36 36 36 36"

text \<open>
  The body of the loop over the accounts: the row that is appended for one account.
  \<^verbatim>\<open>row.cells[0]\<close>, \<^verbatim>\<open>row.cells[1]\<close> and \<^verbatim>\<open>row.cells[2]\<close> raise when the row is shorter.
\<close>

definition new_account_row ::
  "string \<Rightarrow> nat \<Rightarrow> header_baseline \<Rightarrow> table \<Rightarrow> char account \<Rightarrow> py_error + row" where
  "new_account_row tmpl_font tmpl_size hb t acct =
     (case hb of (header_widths, header_row_height, header_spacing) \<Rightarrow>
        (let cells = row_cells (add_row t) in
         if length cells < 3 then Inl IndexError
         else
           (let cells1 = cells[0 := set_cell_text (cells ! 0) (account_no acct),
                               1 := set_cell_text (cells ! 1) (account_name acct),
                               2 := set_cell_text (cells ! 2) (ifsc acct)];
                cells2 = map (style_account_cell tmpl_font tmpl_size header_spacing) cells1;
                cells3 = (case header_widths of
                            None \<Rightarrow> cells2
                          | Some ws \<Rightarrow>
                              if ws = [] then cells2
                              else map (\<lambda>(idx, c).
                                          set_cell_width c (if idx < length ws then ws ! idx else None))
                                       (enumerate 0 cells2))
            in Inr \<lparr>row_cells = cells3,
                    row_height = Some (row_height_or_default header_row_height tmpl_size),
                    row_height_rule = Some AT_LEAST\<rparr>)))"

fun add_account_rows ::
  "char account list \<Rightarrow> string \<Rightarrow> nat \<Rightarrow> header_baseline \<Rightarrow> table \<Rightarrow> py_error + table" where
  "add_account_rows [] tmpl_font tmpl_size hb t = Inr t"
| "add_account_rows (acct # accts) tmpl_font tmpl_size hb t =
     (case new_account_row tmpl_font tmpl_size hb t acct of
        Inl e \<Rightarrow> Inl e
      | Inr r \<Rightarrow> add_account_rows accts tmpl_font tmpl_size hb (t\<lparr>t_rows := t_rows t @ [r]\<rparr>))"

text \<open>Removing the last row \<open>n\<close> times.\<close>

fun delete_rows :: "nat \<Rightarrow> row list \<Rightarrow> row list" where
  "delete_rows 0 rs = rs"
| "delete_rows (Suc n) rs = delete_rows n (butlast rs)"

text \<open>\<^verbatim>\<open>table.style = 'Table Grid'\<close> inside \<^verbatim>\<open>try\<close>: a missing style leaves the table as it is.\<close>

definition set_table_grid_style :: "string list \<Rightarrow> table \<Rightarrow> table" where
  "set_table_grid_style styles t =
     (if ''Table Grid'' \<in> set styles then t\<lparr>t_style := Some ''Table Grid''\<rparr> else t)"

text \<open>What the program does to the table it has selected.\<close>

definition regenerate_accounts_table ::
  "string list \<Rightarrow> char account list \<Rightarrow> string \<Rightarrow> nat \<Rightarrow> header_baseline \<Rightarrow> table
     \<Rightarrow> py_error + table" where
  "regenerate_accounts_table styles accounts tmpl_font tmpl_size hb t =
     (case hb of (header_widths, header_row_height, header_spacing) \<Rightarrow>
        (case t_rows t of
           [] \<Rightarrow> Inl IndexError
         | header_row # rest \<Rightarrow>
             (let header1 = header_row
                    \<lparr>row_cells := map (restyle_header_cell tmpl_font tmpl_size header_spacing)
                                      (row_cells header_row),
                     row_height := Some (row_height_or_default header_row_height tmpl_size),
                     row_height_rule := Some AT_LEAST\<rparr>;
                  rows1 = header1 # rest;
                  t1 = t\<lparr>t_rows := delete_rows (length rows1 - 1) rows1\<rparr>
              in case add_account_rows accounts tmpl_font tmpl_size hb t1 of
                   Inl e \<Rightarrow> Inl e
                 | Inr t2 \<Rightarrow> Inr (set_table_borders (set_table_grid_style styles t2)))))"

text \<open>The loop over the tables, which stops at the first table it selects.\<close>

fun update_accounts_table ::
  "table list \<Rightarrow> string list \<Rightarrow> char account list \<Rightarrow> string \<Rightarrow> nat \<Rightarrow> header_baseline
     \<Rightarrow> py_error + table list" where
  "update_accounts_table [] styles accounts tmpl_font tmpl_size hb = Inr []"
| "update_accounts_table (t # ts) styles accounts tmpl_font tmpl_size hb =
     (if length (t_grid t) = 3 then
        (case py_index (t_rows t) 0 of
           Inl e \<Rightarrow> Inl e
         | Inr header_row \<Rightarrow>
             if is_accounts_header header_row
             then (case regenerate_accounts_table styles accounts tmpl_font tmpl_size hb t of
                     Inl e \<Rightarrow> Inl e
                   | Inr t1 \<Rightarrow> Inr (t1 # ts))
             else (case update_accounts_table ts styles accounts tmpl_font tmpl_size hb of
                     Inl e \<Rightarrow> Inl e
                   | Inr ts1 \<Rightarrow> Inr (t # ts1)))
      else (case update_accounts_table ts styles accounts tmpl_font tmpl_size hb of
              Inl e \<Rightarrow> Inl e
            | Inr ts1 \<Rightarrow> Inr (t # ts1)))"

subsection \<open>The nodal officer\<close>

definition mentions_nodal :: "string \<Rightarrow> bool" where
  "mentions_nodal s = py_in ''nodal officer'' (py_lower s)"

text \<open>
  The loop over the indices of the body paragraphs. The paragraph texts are read from the
  document as it stands when the index is reached.
\<close>

fun nodal_paragraphs_loop ::
  "nat list \<Rightarrow> string \<Rightarrow> nodal_baseline \<Rightarrow> string list \<Rightarrow> para list \<Rightarrow> para list" where
  "nodal_paragraphs_loop [] bank_name baseline styles ps = ps"
| "nodal_paragraphs_loop (i # idxs) bank_name baseline styles ps =
     (if mentions_nodal (paragraph_text (ps ! i)) \<and> i + 1 < length ps
      then nodal_paragraphs_loop idxs bank_name baseline styles
             (ps[i + 1 := apply_baseline_to_paragraph (ps ! (i + 1)) bank_name baseline styles])
      else nodal_paragraphs_loop idxs bank_name baseline styles ps)"

definition nodal_paragraphs ::
  "string \<Rightarrow> nodal_baseline \<Rightarrow> string list \<Rightarrow> para list \<Rightarrow> para list" where
  "nodal_paragraphs bank_name baseline styles ps =
     nodal_paragraphs_loop [0..<length ps] bank_name baseline styles ps"

definition nodal_cell :: "string \<Rightarrow> nodal_baseline \<Rightarrow> string list \<Rightarrow> cell \<Rightarrow> cell" where
  "nodal_cell bank_name baseline styles c =
     c\<lparr>c_paragraphs :=
         map (\<lambda>p. apply_baseline_to_paragraph p bank_name baseline styles) (c_paragraphs c)\<rparr>"

text \<open>The loop over the cells of row \<open>r_idx\<close>, and the loop over the rows of one table.\<close>

fun nodal_cells_loop ::
  "nat list \<Rightarrow> nat \<Rightarrow> string \<Rightarrow> nodal_baseline \<Rightarrow> string list \<Rightarrow> table \<Rightarrow> py_error + table" where
  "nodal_cells_loop [] r_idx bank_name baseline styles t = Inr t"
| "nodal_cells_loop (c_idx # idxs) r_idx bank_name baseline styles t =
     (if mentions_nodal (cell_text (row_cells (t_rows t ! r_idx) ! c_idx))
         \<and> r_idx + 1 < length (t_rows t)
      then (case table_cell t (r_idx + 1) c_idx of
              Inl e \<Rightarrow> Inl e
            | Inr pos \<Rightarrow>
                nodal_cells_loop idxs r_idx bank_name baseline styles
                  (update_cell t pos (nodal_cell bank_name baseline styles)))
      else nodal_cells_loop idxs r_idx bank_name baseline styles t)"

fun nodal_rows_loop ::
  "nat list \<Rightarrow> string \<Rightarrow> nodal_baseline \<Rightarrow> string list \<Rightarrow> table \<Rightarrow> py_error + table" where
  "nodal_rows_loop [] bank_name baseline styles t = Inr t"
| "nodal_rows_loop (r_idx # idxs) bank_name baseline styles t =
     (case nodal_cells_loop [0..<length (row_cells (t_rows t ! r_idx))] r_idx
             bank_name baseline styles t of
        Inl e \<Rightarrow> Inl e
      | Inr t1 \<Rightarrow> nodal_rows_loop idxs bank_name baseline styles t1)"

definition nodal_table ::
  "string \<Rightarrow> nodal_baseline \<Rightarrow> string list \<Rightarrow> table \<Rightarrow> py_error + table" where
  "nodal_table bank_name baseline styles t =
     nodal_rows_loop [0..<length (t_rows t)] bank_name baseline styles t"

fun nodal_tables ::
  "table list \<Rightarrow> string \<Rightarrow> nodal_baseline \<Rightarrow> string list \<Rightarrow> py_error + table list" where
  "nodal_tables [] bank_name baseline styles = Inr []"
| "nodal_tables (t # ts) bank_name baseline styles =
     (case nodal_table bank_name baseline styles t of
        Inl e \<Rightarrow> Inl e
      | Inr t1 \<Rightarrow>
          (case nodal_tables ts bank_name baseline styles of
             Inl e \<Rightarrow> Inl e
           | Inr ts1 \<Rightarrow> Inr (t1 # ts1)))"

subsection \<open>The whole transformation\<close>

text \<open>
  The statements of \<^verbatim>\<open>update_word_template\<close> between loading the template and saving
  the result, in two parts: up to the regeneration of the accounts table, and the nodal
  officer steps.
\<close>

definition before_nodal ::
  "document \<Rightarrow> string \<Rightarrow> char account list \<Rightarrow> string \<Rightarrow> string \<Rightarrow> string \<Rightarrow> nat
     \<Rightarrow> py_error + (document \<times> string \<times> nat)" where
  "before_nodal doc bank_name accounts placeholder tone font_name font_size =
     (case extract_template_baseline doc font_name font_size of
        Inl e \<Rightarrow> Inl e
      | Inr (tmpl_font, tmpl_size, hb) \<Rightarrow>
          (let doc1 = apply_tone doc tone None None;
               doc2 = replace_placeholder doc1 placeholder bank_name
           in case update_accounts_table (d_tables doc2) (d_styles doc2) accounts
                     tmpl_font tmpl_size hb of
                Inl e \<Rightarrow> Inl e
              | Inr tables3 \<Rightarrow> Inr (doc2\<lparr>d_tables := tables3\<rparr>, tmpl_font, tmpl_size)))"

definition nodal_steps :: "document \<Rightarrow> string \<Rightarrow> string \<Rightarrow> nat \<Rightarrow> py_error + document" where
  "nodal_steps doc bank_name tmpl_font tmpl_size =
     (let nodal_baseline = extract_nodal_baseline doc tmpl_font tmpl_size;
          doc1 = doc\<lparr>d_paragraphs :=
                       nodal_paragraphs bank_name nodal_baseline (d_styles doc) (d_paragraphs doc)\<rparr>
      in case nodal_tables (d_tables doc1) bank_name nodal_baseline (d_styles doc1) of
           Inl e \<Rightarrow> Inl e
         | Inr tables2 \<Rightarrow> Inr (doc1\<lparr>d_tables := tables2\<rparr>))"

definition update_body ::
  "document \<Rightarrow> string \<Rightarrow> char account list \<Rightarrow> string \<Rightarrow> string \<Rightarrow> string \<Rightarrow> nat
     \<Rightarrow> py_error + document" where
  "update_body doc bank_name accounts placeholder tone font_name font_size =
     (case before_nodal doc bank_name accounts placeholder tone font_name font_size of
        Inl e \<Rightarrow> Inl e
      | Inr (doc3, tmpl_font, tmpl_size) \<Rightarrow> nodal_steps doc3 bank_name tmpl_font tmpl_size)"

text \<open>
  \<^verbatim>\<open>update_word_template\<close>. \<open>template\<close> is the outcome of loading the template file and
  \<open>save_error\<close> the exception that saving raises, if any. The result is the boolean the
  function returns and the document that has been saved, if one has.
\<close>

definition update_word_template ::
  "py_error + document \<Rightarrow> py_error option \<Rightarrow> string \<Rightarrow> char account list \<Rightarrow> string \<Rightarrow> string
     \<Rightarrow> string \<Rightarrow> nat \<Rightarrow> bool \<times> document option" where
  "update_word_template template save_error bank_name accounts placeholder tone
       font_name font_size =
     (case template of
        Inl e \<Rightarrow> (False, None)
      | Inr doc \<Rightarrow>
          (case update_body doc bank_name accounts placeholder tone font_name font_size of
             Inl e \<Rightarrow> (False, None)
           | Inr doc1 \<Rightarrow>
               (case save_error of
                  Some e \<Rightarrow> (False, None)
                | None \<Rightarrow> (True, Some doc1))))"

section \<open>Orchestrator\<close>

definition output_file_name :: "string \<Rightarrow> string \<Rightarrow> string" where
  "output_file_name bank_name code =
     ''Notice_'' @ py_replace bank_name '' '' ''_'' @ ''_'' @ code @ ''.docx''"

text \<open>
  The loop of \<^verbatim>\<open>main\<close> over the groups. The template file is loaded again for every group;
  \<open>save_error\<close> gives, for an output file name, the exception that saving to it raises,
  and \<open>U\<close> is the character database of the texts.
  The result is the counter of successes and, for every group handled, the output file
  name with the line printed for it (saved or failed).
\<close>

fun generate_notices ::
  "char unicode \<Rightarrow> char grouped \<Rightarrow> (py_error + document) \<Rightarrow> (string \<Rightarrow> py_error option)
     \<Rightarrow> string \<Rightarrow> string \<Rightarrow> string \<Rightarrow> nat \<Rightarrow> nat \<Rightarrow> (string \<times> bool) list
     \<Rightarrow> nat \<times> (string \<times> bool) list" where
  "generate_notices U [] template save_error placeholder tone font_name font_size
       success_count printed = (success_count, printed)"
| "generate_notices U ((code, accounts) # groups) template save_error placeholder tone
       font_name font_size success_count printed =
     (let bank_name = get_bank_name U (Some code);
          output_file = output_file_name bank_name code
      in if fst (update_word_template template (save_error output_file) bank_name accounts
                   placeholder tone font_name font_size)
         then generate_notices U groups template save_error placeholder tone font_name
                font_size (success_count + 1) (printed @ [(output_file, True)])
         else generate_notices U groups template save_error placeholder tone font_name
                font_size success_count (printed @ [(output_file, False)]))"

section \<open>Sample documents\<close>

definition text_paragraph :: "string \<Rightarrow> para" where
  "text_paragraph t = new_paragraph\<lparr>p_runs := [new_run t]\<rparr>"

definition text_cell :: "string \<Rightarrow> cell" where
  "text_cell t = (new_cell None)\<lparr>c_paragraphs := [text_paragraph t]\<rparr>"

definition text_row :: "string list \<Rightarrow> row" where
  "text_row ts = \<lparr>row_cells = map text_cell ts, row_height = None, row_height_rule = None\<rparr>"

definition text_table :: "string list list \<Rightarrow> table" where
  "text_table rows =
     \<lparr>t_grid = replicate (case rows of [] \<Rightarrow> 0 | r # _ \<Rightarrow> length r) None,
      t_rows = map text_row rows, t_alignment = None, t_style = None, t_borders = []\<rparr>"

text \<open>A document whose two paragraphs read \<^verbatim>\<open>urg\<close> and \<^verbatim>\<open>ent\<close>.\<close>

definition split_word_doc :: document where
  "split_word_doc =
     \<lparr>d_paragraphs = [text_paragraph ''urg'', text_paragraph ''ent''], d_tables = [],
      d_styles = []\<rparr>"

text \<open>A document that asks kindly, and one that is a final notice.\<close>

definition kindly_doc :: document where
  "kindly_doc =
     \<lparr>d_paragraphs = [text_paragraph ''Kindly note''], d_tables = [], d_styles = []\<rparr>"

definition final_notice_doc :: document where
  "final_notice_doc =
     \<lparr>d_paragraphs = [text_paragraph ''FINAL NOTICE'', text_paragraph ''please pay''],
      d_tables = [], d_styles = []\<rparr>"

text \<open>
  A document whose only paragraph has two runs: the first names the font Arial and has no
  size, the second names the font Calibri and has the size of ten points.
\<close>

definition two_font_doc :: document where
  "two_font_doc =
     \<lparr>d_paragraphs =
        [new_paragraph\<lparr>p_runs :=
           [(new_run ''Dear '')\<lparr>r_font_name := Some ''Arial''\<rparr>,
            (new_run ''customer'')\<lparr>r_font_name := Some ''Calibri'', r_font_size := Some (Pt 10)\<rparr>]\<rparr>],
      d_tables = [], d_styles = []\<rparr>"

text \<open>
  A template: a letter with the placeholder in two paragraphs and a nodal officer label,
  and an accounts table with a header row and two rows of old data.
\<close>

definition sample_template :: document where
  "sample_template =
     \<lparr>d_paragraphs =
        [text_paragraph ''To ICICI BANK'',
         text_paragraph ''Nodal Officer'',
         text_paragraph ''ICICI BANK, ICICI BANK branch'',
         text_paragraph ''Regards''],
      d_tables =
        [text_table [[''Account No'', ''Account Name'', ''IFSC''],
                     [''1'', ''Old'', ''ICICI BANK''],
                     [''2'', ''Older'', ''x'']]],
      d_styles = [''Normal'', ''Table Grid'']\<rparr>"

definition sample_accounts :: "char account list" where
  "sample_accounts =
     [\<lparr>account_no = ''1001'', account_name = ''Asha'', ifsc = ''HDFC0000001''\<rparr>]"

text \<open>
  A letter with two nodal officer labels in a row: the second label is the paragraph
  after the first one, and an address follows it.
\<close>

definition deputy_doc :: document where
  "deputy_doc =
     \<lparr>d_paragraphs =
        [text_paragraph ''Nodal Officer'',
         text_paragraph ''Deputy Nodal Officer'',
         text_paragraph ''Address''],
      d_tables = [], d_styles = []\<rparr>"

text \<open>
  A letter whose paragraph after the nodal officer label has two formatted runs, with a
  table of two columns that has a nodal officer label in its first row and the placeholder
  in its second row.
\<close>

definition nodal_table_doc :: document where
  "nodal_table_doc =
     \<lparr>d_paragraphs =
        [text_paragraph ''Nodal Officer'',
         new_paragraph\<lparr>p_runs :=
           [(new_run ''Old '')\<lparr>r_font_name := Some ''Arial''\<rparr>,
            (new_run ''officer'')\<lparr>r_font_name := Some ''Calibri'', r_font_size := Some (Pt 11),
                                  r_bold := Some True\<rparr>],
           p_style := Some ''Normal''\<rparr>,
         text_paragraph ''Regards''],
      d_tables =
        [text_table [[''Nodal Officer'', ''Branch''],
                     [''Old officer'', ''ICICI BANK branch'']]],
      d_styles = [''Normal'']\<rparr>"

section \<open>The effect of the nodal officer loops\<close>

text \<open>
  The definitions of this section are not taken from the source. They describe what the
  two loops over indices compute, by recursion over the list of paragraphs and over the
  list of rows, and are proved equal to the loops below. A table is rectangular when every
  row has as many cells as the grid has columns.
\<close>

fun nodal_paragraphs_effect ::
  "string \<Rightarrow> nodal_baseline \<Rightarrow> string list \<Rightarrow> para list \<Rightarrow> para list" where
  "nodal_paragraphs_effect bank_name baseline styles [] = []"
| "nodal_paragraphs_effect bank_name baseline styles [p] = [p]"
| "nodal_paragraphs_effect bank_name baseline styles (p # q # ps) =
     p # nodal_paragraphs_effect bank_name baseline styles
           ((if mentions_nodal (paragraph_text p)
             then apply_baseline_to_paragraph q bank_name baseline styles else q) # ps)"

definition nodal_below :: "string \<Rightarrow> nodal_baseline \<Rightarrow> string list \<Rightarrow> row \<Rightarrow> row \<Rightarrow> row" where
  "nodal_below bank_name baseline styles upper lower =
     lower\<lparr>row_cells :=
       map (\<lambda>(a, b). if mentions_nodal (cell_text a)
                      then nodal_cell bank_name baseline styles b else b)
           (zip (row_cells upper) (row_cells lower))\<rparr>"

fun nodal_rows_effect ::
  "string \<Rightarrow> nodal_baseline \<Rightarrow> string list \<Rightarrow> row list \<Rightarrow> row list" where
  "nodal_rows_effect bank_name baseline styles [] = []"
| "nodal_rows_effect bank_name baseline styles [r] = [r]"
| "nodal_rows_effect bank_name baseline styles (r # s # rs) =
     r # nodal_rows_effect bank_name baseline styles
           (nodal_below bank_name baseline styles r s # rs)"

definition rectangular :: "table \<Rightarrow> bool" where
  "rectangular t = list_all (\<lambda>r. length (row_cells r) = length (t_grid t)) (t_rows t)"

definition set_row_cells :: "table \<Rightarrow> nat \<Rightarrow> cell list \<Rightarrow> table" where
  "set_row_cells t i cs = t\<lparr>t_rows := (t_rows t)[i := (t_rows t ! i)\<lparr>row_cells := cs\<rparr>]\<rparr>"

section \<open>The test of the table loop\<close>

text \<open>
  The loop over the tables selects a table when its grid has three columns and the text of
  its first row passes the header test; it passes a table over, without raising, when the
  grid does not have three columns or the first row exists and fails the header test.
\<close>

definition selects_table :: "table \<Rightarrow> bool" where
  "selects_table t =
     (length (t_grid t) = 3
      \<and> (case t_rows t of [] \<Rightarrow> False | header_row # _ \<Rightarrow> is_accounts_header header_row))"

definition skips_table :: "table \<Rightarrow> bool" where
  "skips_table t =
     (length (t_grid t) \<noteq> 3
      \<or> (case t_rows t of [] \<Rightarrow> False | header_row # _ \<Rightarrow> \<not> is_accounts_header header_row))"

section \<open>Properties of the code validator\<close>

lemma py_index_in_range: "i < length xs \<Longrightarrow> py_index xs i = Inr (xs ! i)"
  by (simp add: py_index_def)

lemma list_all_take_nth: "n \<le> length s \<Longrightarrow> list_all P (take n s) = (\<forall>i<n. P (s ! i))"
  by (auto simp: list_all_length)

lemma list_all_drop_nth: "list_all P (drop n s) = (\<forall>i. n \<le> i \<and> i < length s \<longrightarrow> P (s ! i))"
proof -
  have "list_all P (drop n s) = (\<forall>j < length s - n. P (s ! (n + j)))"
    by (auto simp: list_all_length)
  also have "\<dots> = (\<forall>i. n \<le> i \<and> i < length s \<longrightarrow> P (s ! i))"
  proof (intro iffI allI impI)
    fix i assume h: "\<forall>j<length s - n. P (s ! (n + j))" and i: "n \<le> i \<and> i < length s"
    from i have "i - n < length s - n" by arith
    with h have "P (s ! (n + (i - n)))" by blast
    with i show "P (s ! i)" by simp
  next
    fix j assume "\<forall>i. n \<le> i \<and> i < length s \<longrightarrow> P (s ! i)" and "j < length s - n"
    then show "P (s ! (n + j))" by simp
  qed
  finally show ?thesis .
qed

lemma validate_ifsc_result:
  "validate_ifsc U s =
     Inr (length s = 11
          \<and> (\<forall>i<4. unicode_isalpha U (s ! i))
          \<and> s ! 4 = of_ascii U CHR ''0''
          \<and> (\<forall>i. 5 \<le> i \<and> i < 11 \<longrightarrow> unicode_isalnum U (s ! i)))"
proof (cases "length s = 11")
  case False
  then show ?thesis by (simp add: validate_ifsc_def)
next
  case True
  then have a: "py_isalpha U (take 4 s) = (\<forall>i<4. unicode_isalpha U (s ! i))"
    by (auto simp: py_isalpha_def list_all_take_nth)
  from True have b: "py_isalnum U (drop 5 s) = (\<forall>i. 5 \<le> i \<and> i < 11 \<longrightarrow> unicode_isalnum U (s ! i))"
    by (auto simp: py_isalnum_def list_all_drop_nth)
  from True have c: "py_index s 4 = Inr (s ! 4)" by (simp add: py_index_in_range)
  show ?thesis using True by (auto simp: validate_ifsc_def a b c)
qed

lemma validate_ifsc_total: "\<exists>b. validate_ifsc U s = Inr b"
  using validate_ifsc_result [of U s] by blast

lemmas char_class_defs =
  ascii_isalpha_def ascii_isalnum_def ascii_lowercase_def ascii_uppercase_def digits_def

lemma ascii_unicode_simps:
  "of_ascii ascii_unicode = (\<lambda>c. c)"
  "unicode_isalpha ascii_unicode = ascii_isalpha"
  "unicode_isalnum ascii_unicode = ascii_isalnum"
  "unicode_isspace ascii_unicode = ascii_isspace"
  "unicode_upper ascii_unicode = ascii_upper"
  by (simp_all add: ascii_unicode_def)

lemma lit_ascii: "lit ascii_unicode s = s"
  by (simp add: lit_def ascii_unicode_simps)

lemmas validate_eval =
  validate_ifsc_def py_isalpha_def py_isalnum_def py_index_def char_class_defs
  ascii_unicode_simps

text \<open>
  Claim C2. For every string \<open>s\<close>, \<^verbatim>\<open>validate_ifsc\<close> returns a boolean without raising, and
  that boolean is true exactly when \<open>s\<close> has length 11, its characters at positions 0 to 3
  are alphabetic, its character at position 4 is the digit zero and its characters at
  positions 5 to 10 are alphanumeric. In particular it is false on every string whose
  length is not 11. Alphabetic and alphanumeric are the classes of the character database,
  whatever it is, so the statement covers the letters and the numeric characters outside
  ASCII that \<^verbatim>\<open>str.isalpha\<close> and \<^verbatim>\<open>str.isalnum\<close> accept.
\<close>

theorem validate_ifsc_iff:
  "validate_ifsc U s =
     Inr (length s = 11
          \<and> (\<forall>i<4. unicode_isalpha U (s ! i))
          \<and> s ! 4 = of_ascii U CHR ''0''
          \<and> (\<forall>i. 5 \<le> i \<and> i < 11 \<longrightarrow> unicode_isalnum U (s ! i)))
   \<and> (length s \<noteq> 11 \<longrightarrow> validate_ifsc U s = Inr False)"
proof -
  have "length s \<noteq> 11 \<longrightarrow> validate_ifsc U s = Inr False"
    by (simp add: validate_ifsc_def)
  with validate_ifsc_result [of U s] show ?thesis by (rule conjI)
qed

theorem validate_ifsc_iff_witness:
  "validate_ifsc ascii_unicode ''SBIN0001234'' = Inr True
   \<and> validate_ifsc ascii_unicode ''SBIN000123'' = Inr False"
proof -
  have a: "\<forall>i<4. unicode_isalpha ascii_unicode (''SBIN0001234'' ! i)"
    by (auto simp: less_Suc_eq eval_nat_numeral char_class_defs ascii_unicode_simps)
  have b: "\<forall>i. 5 \<le> i \<and> i < 11 \<longrightarrow> unicode_isalnum ascii_unicode (''SBIN0001234'' ! i)"
    by (auto simp: less_Suc_eq eval_nat_numeral char_class_defs ascii_unicode_simps)
  have c: "length ''SBIN0001234'' = 11 \<and> ''SBIN0001234'' ! 4 = of_ascii ascii_unicode CHR ''0''"
    by (simp add: ascii_unicode_simps)
  have l: "length ''SBIN000123'' \<noteq> 11" by simp
  have "validate_ifsc ascii_unicode ''SBIN0001234'' =
     Inr (length ''SBIN0001234'' = 11
          \<and> (\<forall>i<4. unicode_isalpha ascii_unicode (''SBIN0001234'' ! i))
          \<and> ''SBIN0001234'' ! 4 = of_ascii ascii_unicode CHR ''0''
          \<and> (\<forall>i. 5 \<le> i \<and> i < 11 \<longrightarrow> unicode_isalnum ascii_unicode (''SBIN0001234'' ! i)))"
    using validate_ifsc_iff [of ascii_unicode "''SBIN0001234''"] by (rule conjunct1)
  also have "\<dots> = Inr True"
    by (rule arg_cong [where f = Inr], rule eqTrueI) (use a b c in blast)
  finally have e: "validate_ifsc ascii_unicode ''SBIN0001234'' = Inr True" .
  have "length ''SBIN000123'' \<noteq> 11 \<longrightarrow> validate_ifsc ascii_unicode ''SBIN000123'' = Inr False"
    using validate_ifsc_iff [of ascii_unicode "''SBIN000123''"] by (rule conjunct2)
  with l have r: "validate_ifsc ascii_unicode ''SBIN000123'' = Inr False" by (rule mp [rotated])
  show ?thesis by (rule conjI [OF e r])
qed

section \<open>Properties of the bank name lookup\<close>

lemma bank_names_nonempty: "bank_map_get U k = Some n \<Longrightarrow> n \<noteq> []"
proof -
  have "\<forall>p\<in>set IFSC_BANK_MAP. snd p \<noteq> []"
    by (simp add: IFSC_BANK_MAP_def)
  then have "\<forall>p\<in>set (map (\<lambda>(k, v). (lit U k, lit U v)) IFSC_BANK_MAP). snd p \<noteq> []"
    by (auto simp: lit_def)
  moreover assume "bank_map_get U k = Some n"
  then have "(k, n) \<in> set (map (\<lambda>(k, v). (lit U k, lit U v)) IFSC_BANK_MAP)"
    unfolding bank_map_get_def by (rule map_of_SomeD)
  ultimately show ?thesis by fastforce
qed

lemma lit_inj: "inj (of_ascii U) \<Longrightarrow> lit U a = lit U b \<longleftrightarrow> a = b"
  by (simp add: lit_def inj_map_eq_map)

lemma map_of_lit:
  "inj (of_ascii U) \<Longrightarrow>
   map_of (map (\<lambda>(k, v). (lit U k, lit U v)) m) (lit U key) = map_option (lit U) (map_of m key)"
  by (induction m) (auto simp: lit_inj)

lemma bank_map_get_lit:
  "inj (of_ascii U) \<Longrightarrow>
   bank_map_get U (lit U key) = map_option (lit U) (map_of IFSC_BANK_MAP key)"
  unfolding bank_map_get_def by (rule map_of_lit)

lemma bank_map_get_SBIN:
  "bank_map_get U (lit U ''SBIN'') = Some (lit U ''STATE BANK OF INDIA'')"
  by (simp add: bank_map_get_def IFSC_BANK_MAP_def)

lemmas case_defs = py_upper_def ascii_upper_def ascii_lowercase_def ascii_uppercase_def
  ascii_unicode_simps

lemma get_bank_name_long:
  assumes l: "4 \<le> length code"
  shows "get_bank_name U (Some code) =
          (case bank_map_get U (py_upper U (take 4 code)) of
             Some bank_name \<Rightarrow> bank_name
           | None \<Rightarrow> py_upper U (take 4 code) @ lit U '' BANK'')"
proof (cases "bank_map_get U (py_upper U (take 4 code))")
  case None
  with l show ?thesis by (auto simp: get_bank_name_def Let_def)
next
  case (Some n)
  then have "n \<noteq> []" by (rule bank_names_nonempty)
  with Some l show ?thesis by (auto simp: get_bank_name_def Let_def)
qed

lemma get_bank_name_SBIN:
  assumes "py_upper U (lit U ''SBIN'') = lit U ''SBIN''"
  shows "get_bank_name U (Some (lit U ''SBIN0001234'')) = lit U ''STATE BANK OF INDIA''"
proof -
  have t: "take 4 (lit U ''SBIN0001234'') = lit U ''SBIN''"
    by (simp add: lit_def)
  have "4 \<le> length (lit U ''SBIN0001234'')" by (simp add: lit_def)
  from get_bank_name_long [of "lit U ''SBIN0001234''" U, OF this] show ?thesis
    unfolding t assms bank_map_get_SBIN by simp
qed

lemma get_bank_name_ZZZZ:
  assumes "py_upper U (lit U ''ZZZZ'') = lit U ''ZZZZ''" and "inj (of_ascii U)"
  shows "get_bank_name U (Some (lit U ''ZZZZ0000001'')) = lit U ''ZZZZ BANK''"
proof -
  have t: "take 4 (lit U ''ZZZZ0000001'') = lit U ''ZZZZ''"
    by (simp add: lit_def)
  have m: "bank_map_get U (lit U ''ZZZZ'') = None"
    unfolding bank_map_get_lit [OF assms(2)] by (simp add: IFSC_BANK_MAP_def)
  have "4 \<le> length (lit U ''ZZZZ0000001'')" by (simp add: lit_def)
  from get_bank_name_long [of "lit U ''ZZZZ0000001''" U, OF this]
  have "get_bank_name U (Some (lit U ''ZZZZ0000001'')) = lit U ''ZZZZ'' @ lit U '' BANK''"
    unfolding t assms(1) m by simp
  also have "\<dots> = lit U ''ZZZZ BANK''" by (simp add: lit_def)
  finally show ?thesis .
qed

lemma get_bank_name_empty: "get_bank_name U (Some []) = lit U ''UNKNOWN BANK ()''"
  by (simp add: get_bank_name_def lit_def)

text \<open>
  Claim C8. \<^verbatim>\<open>get_bank_name\<close> answers \<^verbatim>\<open>UNKNOWN BANK (<code>)\<close> for a null code and for every
  code of fewer than four characters (the empty one included); for every other code it
  looks the uppercased first four characters up in the prefix table and returns the name
  found, or the uppercased prefix followed by \<^verbatim>\<open> BANK\<close> when the table has no entry. The
  uppercased prefix is what \<^verbatim>\<open>str.upper\<close> gives, which can be longer than four characters.
  The empty code gives \<^verbatim>\<open>UNKNOWN BANK ()\<close>; \<^verbatim>\<open>SBIN0001234\<close> gives \<^verbatim>\<open>STATE BANK OF INDIA\<close> and
  \<^verbatim>\<open>ZZZZ0000001\<close> gives \<^verbatim>\<open>ZZZZ BANK\<close> under every character database that leaves these
  capital letters as they are and keeps different characters of a literal different.
\<close>

theorem get_bank_name_spec:
  "get_bank_name U None = lit U ''UNKNOWN BANK (None)''
   \<and> (length code < 4 \<longrightarrow>
        get_bank_name U (Some code) = lit U ''UNKNOWN BANK ('' @ code @ lit U '')'')
   \<and> (4 \<le> length code \<longrightarrow>
        get_bank_name U (Some code) =
          (case bank_map_get U (py_upper U (take 4 code)) of
             Some bank_name \<Rightarrow> bank_name
           | None \<Rightarrow> py_upper U (take 4 code) @ lit U '' BANK''))
   \<and> (inj (of_ascii U) \<longrightarrow>
        bank_map_get U (lit U key) = map_option (lit U) (map_of IFSC_BANK_MAP key))
   \<and> get_bank_name U (Some []) = lit U ''UNKNOWN BANK ()''
   \<and> (py_upper U (lit U ''SBIN'') = lit U ''SBIN'' \<longrightarrow>
        get_bank_name U (Some (lit U ''SBIN0001234'')) = lit U ''STATE BANK OF INDIA'')
   \<and> (py_upper U (lit U ''ZZZZ'') = lit U ''ZZZZ'' \<and> inj (of_ascii U) \<longrightarrow>
        get_bank_name U (Some (lit U ''ZZZZ0000001'')) = lit U ''ZZZZ BANK'')"
proof -
  have a: "get_bank_name U None = lit U ''UNKNOWN BANK (None)''"
    by (simp add: get_bank_name_def)
  have b: "length code < 4 \<longrightarrow>
        get_bank_name U (Some code) = lit U ''UNKNOWN BANK ('' @ code @ lit U '')''"
    by (simp add: get_bank_name_def)
  have c: "4 \<le> length code \<longrightarrow>
        get_bank_name U (Some code) =
          (case bank_map_get U (py_upper U (take 4 code)) of
             Some bank_name \<Rightarrow> bank_name
           | None \<Rightarrow> py_upper U (take 4 code) @ lit U '' BANK'')"
    using get_bank_name_long [of code U] by blast
  have d: "inj (of_ascii U) \<longrightarrow>
        bank_map_get U (lit U key) = map_option (lit U) (map_of IFSC_BANK_MAP key)"
    using bank_map_get_lit [of U key] by blast
  have e: "py_upper U (lit U ''SBIN'') = lit U ''SBIN'' \<longrightarrow>
        get_bank_name U (Some (lit U ''SBIN0001234'')) = lit U ''STATE BANK OF INDIA''"
    using get_bank_name_SBIN [of U] by blast
  have f: "py_upper U (lit U ''ZZZZ'') = lit U ''ZZZZ'' \<and> inj (of_ascii U) \<longrightarrow>
        get_bank_name U (Some (lit U ''ZZZZ0000001'')) = lit U ''ZZZZ BANK''"
    using get_bank_name_ZZZZ [of U] by blast
  from a b c d get_bank_name_empty [of U] e f
  show ?thesis by (intro conjI)
qed

lemma inj_ascii_unicode: "inj (of_ascii ascii_unicode)"
  by (simp add: ascii_unicode_simps)

theorem get_bank_name_spec_witness:
  "get_bank_name ascii_unicode (Some ''hdfc0000001'') = ''HDFC BANK''
   \<and> get_bank_name ascii_unicode (Some ''AB'') = ''UNKNOWN BANK (AB)''
   \<and> get_bank_name ascii_unicode (Some ''SBIN0001234'') = ''STATE BANK OF INDIA''
   \<and> get_bank_name ascii_unicode (Some ''ZZZZ0000001'') = ''ZZZZ BANK''
   \<and> get_bank_name ascii_unicode (Some ''qqqq0000001'') = ''QQQQ BANK''"
proof -
  note spec = get_bank_name_spec [where U = ascii_unicode]
  have l: "4 \<le> length ''hdfc0000001''" by simp
  have s: "length ''AB'' < 4" by simp
  have u: "py_upper ascii_unicode (take 4 ''hdfc0000001'') = ''HDFC''"
    by (simp add: case_defs)
  have m: "bank_map_get ascii_unicode ''HDFC'' = Some ''HDFC BANK''"
    using spec [of _ "''HDFC''"] inj_ascii_unicode
    by (simp add: lit_ascii IFSC_BANK_MAP_def)
  from spec [of "''hdfc0000001''"] l
  have "get_bank_name ascii_unicode (Some ''hdfc0000001'') = ''HDFC BANK''"
    unfolding u m by simp
  moreover from spec [of "''AB''"] s
  have "get_bank_name ascii_unicode (Some ''AB'') = ''UNKNOWN BANK (AB)''"
    by (simp add: lit_ascii)
  moreover have "py_upper ascii_unicode (lit ascii_unicode ''SBIN'') = lit ascii_unicode ''SBIN''"
    by (simp add: case_defs lit_ascii)
  with spec [of "[]"]
  have "get_bank_name ascii_unicode (Some ''SBIN0001234'') = ''STATE BANK OF INDIA''"
    by (simp add: lit_ascii)
  moreover have "py_upper ascii_unicode (lit ascii_unicode ''ZZZZ'') = lit ascii_unicode ''ZZZZ''"
    by (simp add: case_defs lit_ascii)
  with spec [of "[]"] inj_ascii_unicode
  have "get_bank_name ascii_unicode (Some ''ZZZZ0000001'') = ''ZZZZ BANK''"
    by (simp add: lit_ascii)
  moreover have "get_bank_name ascii_unicode (Some ''qqqq0000001'') = ''QQQQ BANK''"
  proof -
    have l2: "4 \<le> length ''qqqq0000001''" by simp
    have u2: "py_upper ascii_unicode (take 4 ''qqqq0000001'') = ''QQQQ''"
      by (simp add: case_defs)
    have m2: "bank_map_get ascii_unicode ''QQQQ'' = None"
      using spec [of _ "''QQQQ''"] inj_ascii_unicode
      by (simp add: lit_ascii IFSC_BANK_MAP_def)
    from spec [of "''qqqq0000001''"] l2 show ?thesis
      unfolding u2 m2 by (simp add: lit_ascii)
  qed
  ultimately show ?thesis by (intro conjI)
qed

section \<open>Properties of the record grouper\<close>

lemma map_of_dict_append:
  "map_of (dict_append g key v) =
     (map_of g)(key \<mapsto> (case map_of g key of None \<Rightarrow> [v] | Some vs \<Rightarrow> vs @ [v]))"
  by (induction g key v rule: dict_append.induct) (auto simp: fun_eq_iff)

lemma keys_dict_append:
  "set (map fst (dict_append g key v)) = insert key (set (map fst g))"
  by (induction g key v rule: dict_append.induct) auto

lemma distinct_dict_append:
  "distinct (map fst g) \<Longrightarrow> distinct (map fst (dict_append g key v))"
proof (induction g key v rule: dict_append.induct)
  case (1 key v)
  then show ?case by simp
next
  case (2 k vs g key v)
  then show ?case
    using keys_dict_append [of g key v] by auto
qed

lemma sum_dict_append:
  "sum_list (map (length \<circ> snd) (dict_append g key v)) = Suc (sum_list (map (length \<circ> snd) g))"
  by (induction g key v rule: dict_append.induct) auto

lemma values_dict_append:
  "p \<in> set (dict_append g key v) \<Longrightarrow> p \<in> set g \<or> (fst p = key \<and> snd p \<noteq> [])"
  by (induction g key v rule: dict_append.induct) (auto split: if_splits)

lemma group_rows_step_invalid:
  "validate_ifsc U (py_upper U (py_strip U (ifsc_cell row))) = Inr False \<Longrightarrow>
   group_rows U (row # rows) g0 inv0 =
     group_rows U rows g0 (inv0 @ [py_upper U (py_strip U (ifsc_cell row))])"
  by (simp add: Let_def)

lemma group_rows_step_valid:
  "validate_ifsc U (py_upper U (py_strip U (ifsc_cell row))) = Inr True \<Longrightarrow>
   group_rows U (row # rows) g0 inv0 =
     group_rows U rows
       (dict_append g0 (py_upper U (py_strip U (ifsc_cell row)))
          \<lparr>account_no = py_strip U (account_cell row),
           account_name = py_strip U (name_cell row),
           ifsc = py_upper U (py_strip U (ifsc_cell row))\<rparr>)
       inv0"
  by (simp add: Let_def)

lemma validate_ifsc_cases:
  "validate_ifsc U s = Inr True \<or> validate_ifsc U s = Inr False"
  using validate_ifsc_total [of U s] by auto

lemma group_rows_invariant:
  assumes "distinct (map fst g0)"
    and "\<forall>p\<in>set g0. validate_ifsc U (fst p) = Inr True \<and> snd p \<noteq> []"
  shows "\<exists>g invalid. group_rows U rows g0 inv0 = Inr (g, invalid)
           \<and> distinct (map fst g)
           \<and> (\<forall>p\<in>set g. validate_ifsc U (fst p) = Inr True \<and> snd p \<noteq> [])
           \<and> length invalid + sum_list (map (length \<circ> snd) g)
               = length inv0 + sum_list (map (length \<circ> snd) g0) + length rows"
  using assms
proof (induction rows arbitrary: g0 inv0)
  case Nil
  then show ?case by simp
next
  case (Cons row rows)
  let ?code = "py_upper U (py_strip U (ifsc_cell row))"
  let ?acc = "\<lparr>account_no = py_strip U (account_cell row),
           account_name = py_strip U (name_cell row), ifsc = ?code\<rparr>"
  from validate_ifsc_cases [of U ?code] show ?case
  proof
    assume ok: "validate_ifsc U ?code = Inr True"
    let ?g1 = "dict_append g0 ?code ?acc"
    have d: "distinct (map fst ?g1)"
      using Cons.prems(1) by (rule distinct_dict_append)
    have v: "\<forall>p\<in>set ?g1. validate_ifsc U (fst p) = Inr True \<and> snd p \<noteq> []"
    proof
      fix p assume "p \<in> set ?g1"
      then have "p \<in> set g0 \<or> (fst p = ?code \<and> snd p \<noteq> [])"
        by (rule values_dict_append)
      with Cons.prems(2) ok show "validate_ifsc U (fst p) = Inr True \<and> snd p \<noteq> []"
        by auto
    qed
    from Cons.IH [OF d v, of inv0] obtain g invalid where
      r: "group_rows U rows ?g1 inv0 = Inr (g, invalid)" "distinct (map fst g)"
         "\<forall>p\<in>set g. validate_ifsc U (fst p) = Inr True \<and> snd p \<noteq> []"
         "length invalid + sum_list (map (length \<circ> snd) g)
            = length inv0 + sum_list (map (length \<circ> snd) ?g1) + length rows"
      by blast
    from r(4) have "length invalid + sum_list (map (length \<circ> snd) g)
            = length inv0 + sum_list (map (length \<circ> snd) g0) + length (row # rows)"
      by (simp add: sum_dict_append)
    with r(1-3) show ?thesis
      unfolding group_rows_step_valid [OF ok] by blast
  next
    assume bad: "validate_ifsc U ?code = Inr False"
    from Cons.IH [OF Cons.prems, of "inv0 @ [?code]"] obtain g invalid where
      r: "group_rows U rows g0 (inv0 @ [?code]) = Inr (g, invalid)" "distinct (map fst g)"
         "\<forall>p\<in>set g. validate_ifsc U (fst p) = Inr True \<and> snd p \<noteq> []"
         "length invalid + sum_list (map (length \<circ> snd) g)
            = length (inv0 @ [?code]) + sum_list (map (length \<circ> snd) g0) + length rows"
      by blast
    from r(4) have "length invalid + sum_list (map (length \<circ> snd) g)
            = length inv0 + sum_list (map (length \<circ> snd) g0) + length (row # rows)"
      by simp
    with r(1-3) show ?thesis
      unfolding group_rows_step_invalid [OF bad] by blast
  qed
qed

lemma group_rows_lookup:
  "group_rows U rows g0 inv0 = Inr (g, invalid) \<Longrightarrow>
   (case map_of g key of None \<Rightarrow> [] | Some vs \<Rightarrow> vs) =
     (case map_of g0 key of None \<Rightarrow> [] | Some vs \<Rightarrow> vs)
     @ map (\<lambda>row. \<lparr>account_no = py_strip U (account_cell row),
                    account_name = py_strip U (name_cell row),
                    ifsc = py_upper U (py_strip U (ifsc_cell row))\<rparr>)
         (filter (\<lambda>row. py_upper U (py_strip U (ifsc_cell row)) = key
                        \<and> validate_ifsc U key = Inr True) rows)"
proof (induction rows arbitrary: g0 inv0)
  case Nil
  then show ?case by simp
next
  case (Cons row rows)
  let ?code = "py_upper U (py_strip U (ifsc_cell row))"
  from validate_ifsc_cases [of U ?code] show ?case
  proof
    assume ok: "validate_ifsc U ?code = Inr True"
    from Cons.prems have "group_rows U rows
       (dict_append g0 ?code
          \<lparr>account_no = py_strip U (account_cell row),
           account_name = py_strip U (name_cell row), ifsc = ?code\<rparr>) inv0 = Inr (g, invalid)"
      unfolding group_rows_step_valid [OF ok] .
    from Cons.IH [OF this] ok show ?thesis
      by (auto simp: map_of_dict_append split: option.splits)
  next
    assume bad: "validate_ifsc U ?code = Inr False"
    from Cons.prems have "group_rows U rows g0 (inv0 @ [?code]) = Inr (g, invalid)"
      unfolding group_rows_step_invalid [OF bad] .
    from Cons.IH [OF this] bad show ?thesis
      by (auto split: option.splits)
  qed
qed

lemma read_excel_data_rows:
  "read_excel_data U (Inr rows) = Some res \<longleftrightarrow> group_rows U rows [] [] = Inr res"
  by (simp add: read_excel_data_def split: sum.splits)

text \<open>
  Claim C5. For every sequence of input rows the grouping returns a result (it does not
  fail), every key of the resulting mapping passes \<^verbatim>\<open>validate_ifsc\<close>, no key maps to an
  empty list of records, the keys are pairwise different, and the number of invalid codes
  collected plus the number of records over all groups is the number of input rows. This
  holds for every character database, so also on rows whose cells carry characters outside
  ASCII.
\<close>

theorem grouping_invariant:
  "\<exists>g invalid. read_excel_data U (Inr rows) = Some (g, invalid)
     \<and> (\<forall>key\<in>set (map fst g). validate_ifsc U key = Inr True)
     \<and> (\<forall>p\<in>set g. snd p \<noteq> [])
     \<and> distinct (map fst g)
     \<and> length invalid + sum_list (map (length \<circ> snd) g) = length rows"
proof -
  from group_rows_invariant [of "[]" U rows "[]"] obtain g invalid where
    r: "group_rows U rows [] [] = Inr (g, invalid)" "distinct (map fst g)"
       "\<forall>p\<in>set g. validate_ifsc U (fst p) = Inr True \<and> snd p \<noteq> []"
       "length invalid + sum_list (map (length \<circ> snd) g) = length rows"
    by auto
  from r(1) have "read_excel_data U (Inr rows) = Some (g, invalid)"
    by (simp add: read_excel_data_rows)
  with r(2-4) show ?thesis by auto
qed

text \<open>
  Claim C10. In the mapping that the grouping returns, the records stored under a key are,
  in input order, exactly the records built from the input rows whose routing-code cell,
  trimmed of whitespace and uppercased, equals that key; so the \<^verbatim>\<open>ifsc\<close> field of every
  record in a group equals the key of the group. Trimming and uppercasing are those of
  \<^verbatim>\<open>str.strip\<close> and \<^verbatim>\<open>str.upper\<close> under the character database, whatever it is.
\<close>

theorem group_key_is_normalised_code:
  assumes "read_excel_data U (Inr rows) = Some (g, invalid)"
    and "(key, recs) \<in> set g"
  shows "(\<forall>a\<in>set recs. ifsc a = key)
     \<and> recs \<noteq> []
     \<and> recs = map (\<lambda>row. \<lparr>account_no = py_strip U (account_cell row),
                           account_name = py_strip U (name_cell row),
                           ifsc = py_upper U (py_strip U (ifsc_cell row))\<rparr>)
               (filter (\<lambda>row. py_upper U (py_strip U (ifsc_cell row)) = key) rows)"
proof -
  from assms(1) have gr: "group_rows U rows [] [] = Inr (g, invalid)"
    by (simp add: read_excel_data_rows)
  from group_rows_invariant [of "[]" U rows "[]"] gr
  have d: "distinct (map fst g)"
    and v: "\<forall>p\<in>set g. validate_ifsc U (fst p) = Inr True \<and> snd p \<noteq> []"
    by auto
  from v assms(2) have ok: "validate_ifsc U key = Inr True" and ne: "recs \<noteq> []"
    by auto
  from d assms(2) have "map_of g key = Some recs" by simp
  with group_rows_lookup [OF gr, of key] ok
  have eq: "recs = map (\<lambda>row. \<lparr>account_no = py_strip U (account_cell row),
                           account_name = py_strip U (name_cell row),
                           ifsc = py_upper U (py_strip U (ifsc_cell row))\<rparr>)
               (filter (\<lambda>row. py_upper U (py_strip U (ifsc_cell row)) = key) rows)"
    by simp
  then have "\<forall>a\<in>set recs. ifsc a = key" by auto
  with ne eq show ?thesis by blast
qed

lemmas strip_defs = py_strip_def ascii_isspace_def whitespace_def

lemma sample_rows_grouped:
  "read_excel_data ascii_unicode (Inr sample_rows) = Some (sample_grouped, [''BAD''])"
  by (simp add: read_excel_data_def sample_rows_def sample_grouped_def Let_def
      validate_eval case_defs strip_defs)

theorem grouping_invariant_witness:
  "read_excel_data ascii_unicode (Inr sample_rows) = Some (sample_grouped, [''BAD''])
   \<and> validate_ifsc ascii_unicode ''HDFC0000001'' = Inr True
   \<and> length [''BAD''] + sum_list (map (length \<circ> snd) sample_grouped) = length sample_rows"
proof -
  from grouping_invariant [of ascii_unicode sample_rows] obtain g invalid where
    r: "read_excel_data ascii_unicode (Inr sample_rows) = Some (g, invalid)"
       "\<forall>key\<in>set (map fst g). validate_ifsc ascii_unicode key = Inr True"
       "length invalid + sum_list (map (length \<circ> snd) g) = length sample_rows"
    by blast
  from r(1) have g: "g = sample_grouped" and i: "invalid = [''BAD'']"
    by (simp_all add: sample_rows_grouped)
  have "''HDFC0000001'' \<in> set (map fst sample_grouped)"
    by (simp add: sample_grouped_def)
  with r(2) g have "validate_ifsc ascii_unicode ''HDFC0000001'' = Inr True" by blast
  with r(3) g i sample_rows_grouped show ?thesis by blast
qed

theorem group_key_is_normalised_code_witness:
  "[\<lparr>account_no = ''1001'', account_name = ''Asha'', ifsc = ''SBIN0001234''\<rparr>,
    \<lparr>account_no = ''1003'', account_name = ''Meena'', ifsc = ''SBIN0001234''\<rparr>]
   = map (\<lambda>row. \<lparr>account_no = py_strip ascii_unicode (account_cell row),
                  account_name = py_strip ascii_unicode (name_cell row),
                  ifsc = py_upper ascii_unicode (py_strip ascii_unicode (ifsc_cell row))\<rparr>)
       (filter (\<lambda>row. py_upper ascii_unicode (py_strip ascii_unicode (ifsc_cell row))
                        = ''SBIN0001234'') sample_rows)"
proof -
  have m: "(''SBIN0001234'',
         [\<lparr>account_no = ''1001'', account_name = ''Asha'', ifsc = ''SBIN0001234''\<rparr>,
          \<lparr>account_no = ''1003'', account_name = ''Meena'', ifsc = ''SBIN0001234''\<rparr>])
      \<in> set sample_grouped"
    by (simp add: sample_grouped_def)
  from group_key_is_normalised_code [OF sample_rows_grouped m]
  show ?thesis by (rule conjunct2 [THEN conjunct2])
qed

section \<open>Characters outside ASCII\<close>

text \<open>
  Three consequences of the definitions for texts that leave ASCII, for every character
  database that has the property assumed. A letter such as U+00C0 at the head of a code is
  alphabetic, so the code is valid; the uppercase of U+00DF is \<^verbatim>\<open>SS\<close>, so the prefix looked
  up has five characters and is not in the table; and a no-break space at the end of a
  cell is whitespace, so trimming removes it.
\<close>

lemma validate_ifsc_letter:
  assumes "unicode_isalpha U a"
    and "list_all (unicode_isalpha U) (lit U ''BCD'')"
    and "list_all (unicode_isalnum U) (lit U ''123456'')"
  shows "validate_ifsc U (a # lit U ''BCD0123456'') = Inr True"
  using assms by (simp add: validate_ifsc_def py_isalpha_def py_isalnum_def py_index_def lit_def)

lemma bank_map_get_length: "length key \<noteq> 4 \<Longrightarrow> bank_map_get U key = None"
proof -
  assume l: "length key \<noteq> 4"
  have "\<forall>p\<in>set IFSC_BANK_MAP. length (fst p) = 4"
    by (simp add: IFSC_BANK_MAP_def)
  then have "\<forall>p\<in>set (map (\<lambda>(k, v). (lit U k, lit U v)) IFSC_BANK_MAP). length (fst p) = 4"
    by (auto simp: lit_def)
  with l have "key \<notin> fst ` set (map (\<lambda>(k, v). (lit U k, lit U v)) IFSC_BANK_MAP)"
    by blast
  then show ?thesis
    unfolding bank_map_get_def by (simp only: map_of_eq_None_iff simp_thms)
qed

lemma get_bank_name_sharp_s:
  assumes "unicode_upper U s = lit U ''SS''"
    and "py_upper U (lit U ''bin'') = lit U ''BIN''"
  shows "get_bank_name U (Some (s # lit U ''bin0001234'')) = lit U ''SSBIN BANK''"
proof -
  have t: "take 4 (s # lit U ''bin0001234'') = s # lit U ''bin''"
    by (simp add: lit_def)
  have "py_upper U (s # lit U ''bin'') = unicode_upper U s @ py_upper U (lit U ''bin'')"
    by (simp add: py_upper_def)
  also have "\<dots> = lit U ''SSBIN''"
    unfolding assms by (simp add: lit_def)
  finally have u: "py_upper U (s # lit U ''bin'') = lit U ''SSBIN''" .
  have m: "bank_map_get U (lit U ''SSBIN'') = None"
    by (rule bank_map_get_length) (simp add: lit_def)
  have "4 \<le> length (s # lit U ''bin0001234'')" by (simp add: lit_def)
  from get_bank_name_long [of "s # lit U ''bin0001234''" U, OF this]
  have "get_bank_name U (Some (s # lit U ''bin0001234'')) = lit U ''SSBIN'' @ lit U '' BANK''"
    unfolding t u m by simp
  also have "\<dots> = lit U ''SSBIN BANK''" by (simp add: lit_def)
  finally show ?thesis .
qed

lemma py_strip_trailing:
  assumes "unicode_isspace U w" and "s \<noteq> []"
    and "\<not> unicode_isspace U (hd s)" and "\<not> unicode_isspace U (last s)"
  shows "py_strip U (s @ [w]) = s"
proof -
  from assms(2,3) have a: "dropWhile (unicode_isspace U) (s @ [w]) = s @ [w]"
    by (cases s) simp_all
  from assms(2,4) have b: "dropWhile (unicode_isspace U) (rev s) = rev s"
    by (cases "rev s") (simp_all add: last_rev [symmetric] del: last_rev)
  show ?thesis
    unfolding py_strip_def a using assms(1) by (simp add: b)
qed

section \<open>Properties of the tone resolution\<close>

lemma lower_char_space: "lower_char CHR '' '' = CHR '' ''"
  by (simp add: lower_char_def ascii_lowercase_def ascii_uppercase_def)

lemma py_lower_append: "py_lower (a @ b) = py_lower a @ py_lower b"
  by (simp add: py_lower_def)

lemma py_lower_join:
  "py_lower sep = sep \<Longrightarrow> py_join sep (map py_lower xs) = py_lower (py_join sep xs)"
  by (induction sep xs rule: py_join.induct) (simp_all add: py_lower_append, simp add: py_lower_def)

lemma py_lower_join_space:
  "py_join '' '' (map py_lower xs) = py_lower (py_join '' '' xs)"
  by (rule py_lower_join) (simp add: py_lower_def lower_char_space)

lemma detect_tone_cases:
  "detect_tone doc = ''urgent'' \<or> detect_tone doc = ''friendly'' \<or> detect_tone doc = ''formal''"
  by (simp add: detect_tone_def Let_def)

lemma resolve_tone_auto: "resolve_tone doc ''auto'' = detect_tone doc"
  using detect_tone_cases [of doc] by (auto simp: resolve_tone_def Let_def)

text \<open>
  Claim C7, amended. With the tone \<^verbatim>\<open>auto\<close> the resolved tone is \<^verbatim>\<open>urgent\<close> when the
  lowercased texts of the paragraphs, joined with single spaces, contain one of
  \<^verbatim>\<open>urgent\<close>, \<^verbatim>\<open>immediate\<close>, \<^verbatim>\<open>final notice\<close>, \<^verbatim>\<open>last reminder\<close>; otherwise it is
  \<^verbatim>\<open>friendly\<close> when they contain one of \<^verbatim>\<open>kindly\<close>, \<^verbatim>\<open>please\<close>, \<^verbatim>\<open>request\<close>,
  \<^verbatim>\<open>cooperate\<close>; otherwise it is \<^verbatim>\<open>formal\<close>. Every other tone that is not one of
  \<^verbatim>\<open>formal\<close>, \<^verbatim>\<open>urgent\<close>, \<^verbatim>\<open>friendly\<close> resolves to \<^verbatim>\<open>formal\<close>, and these three resolve
  to themselves.
\<close>

theorem resolve_tone_spec:
  "resolve_tone doc ''auto'' =
     (let text = py_lower (py_join '' '' (map paragraph_text (d_paragraphs doc))) in
      if py_in ''urgent'' text \<or> py_in ''immediate'' text
         \<or> py_in ''final notice'' text \<or> py_in ''last reminder'' text
      then ''urgent''
      else if py_in ''kindly'' text \<or> py_in ''please'' text
              \<or> py_in ''request'' text \<or> py_in ''cooperate'' text
      then ''friendly''
      else ''formal'')
   \<and> (tone \<noteq> ''auto'' \<and> tone \<noteq> ''formal'' \<and> tone \<noteq> ''urgent'' \<and> tone \<noteq> ''friendly''
        \<longrightarrow> resolve_tone doc tone = ''formal'')
   \<and> (tone = ''formal'' \<or> tone = ''urgent'' \<or> tone = ''friendly''
        \<longrightarrow> resolve_tone doc tone = tone)"
proof -
  have j: "py_join '' '' (map (\<lambda>p. py_lower (paragraph_text p)) (d_paragraphs doc))
           = py_lower (py_join '' '' (map paragraph_text (d_paragraphs doc)))"
    using py_lower_join_space [of "map paragraph_text (d_paragraphs doc)"]
    by (simp add: comp_def)
  have a: "resolve_tone doc ''auto'' =
     (let text = py_lower (py_join '' '' (map paragraph_text (d_paragraphs doc))) in
      if py_in ''urgent'' text \<or> py_in ''immediate'' text
         \<or> py_in ''final notice'' text \<or> py_in ''last reminder'' text
      then ''urgent''
      else if py_in ''kindly'' text \<or> py_in ''please'' text
              \<or> py_in ''request'' text \<or> py_in ''cooperate'' text
      then ''friendly''
      else ''formal'')"
    unfolding resolve_tone_auto by (simp add: detect_tone_def j Let_def)
  have b: "tone \<noteq> ''auto'' \<and> tone \<noteq> ''formal'' \<and> tone \<noteq> ''urgent'' \<and> tone \<noteq> ''friendly''
        \<longrightarrow> resolve_tone doc tone = ''formal''"
    by (simp add: resolve_tone_def Let_def)
  have c: "tone = ''formal'' \<or> tone = ''urgent'' \<or> tone = ''friendly''
        \<longrightarrow> resolve_tone doc tone = tone"
    by (auto simp: resolve_tone_def Let_def)
  from a b c show ?thesis by (intro conjI)
qed

lemmas lower_defs = py_lower_def lower_char_def ascii_lowercase_def ascii_uppercase_def

lemmas sample_text_defs = text_paragraph_def new_paragraph_def new_run_def paragraph_text_def

theorem resolve_tone_spec_witness:
  "resolve_tone final_notice_doc ''auto'' = ''urgent''
   \<and> resolve_tone kindly_doc ''auto'' = ''friendly''
   \<and> resolve_tone kindly_doc ''loud'' = ''formal''
   \<and> resolve_tone kindly_doc ''urgent'' = ''urgent''"
proof -
  have a: "py_lower (py_join '' '' (map paragraph_text (d_paragraphs final_notice_doc)))
           = ''final notice please pay''"
    by (simp add: final_notice_doc_def sample_text_defs lower_defs)
  have b: "py_lower (py_join '' '' (map paragraph_text (d_paragraphs kindly_doc)))
           = ''kindly note''"
    by (simp add: kindly_doc_def sample_text_defs lower_defs)
  have "resolve_tone final_notice_doc ''auto'' = ''urgent''"
    using resolve_tone_spec [of final_notice_doc "''auto''"] unfolding a by simp
  moreover have "resolve_tone kindly_doc ''auto'' = ''friendly''"
    using resolve_tone_spec [of kindly_doc "''auto''"] unfolding b by simp
  moreover have "resolve_tone kindly_doc ''loud'' = ''formal''"
    using resolve_tone_spec [of kindly_doc "''loud''"] by simp
  moreover have "resolve_tone kindly_doc ''urgent'' = ''urgent''"
    using resolve_tone_spec [of kindly_doc "''urgent''"] by simp
  ultimately show ?thesis by (intro conjI)
qed

text \<open>
  Claim C7 as stated speaks of the concatenation of the paragraph texts. The texts are
  joined with a space between them: the two paragraphs \<^verbatim>\<open>urg\<close> and \<^verbatim>\<open>ent\<close> concatenate to
  a text that contains \<^verbatim>\<open>urgent\<close>, and the tone resolves to \<^verbatim>\<open>formal\<close>.
\<close>

theorem tone_concatenation_counterexample:
  "py_in ''urgent'' (py_lower (concat (map paragraph_text (d_paragraphs split_word_doc))))
   \<and> resolve_tone split_word_doc ''auto'' = ''formal''"
  by (simp add: resolve_tone_def detect_tone_def split_word_doc_def sample_text_defs
      lower_defs Let_def)

section \<open>Properties of the template baseline\<close>

lemmas truthy_defs = truthy_str_def truthy_nat_def or_str_def or_nat_def

text \<open>
  Claim C4 says that the baseline font name is the first non-empty font name met in the
  scan. On a paragraph whose first run names Arial without a size and whose second run
  names Calibri with a size of ten points, the function returns Calibri: the name is
  overwritten by every later run that has one until a size has been found as well. The
  scan of the paragraph after the nodal officer label keeps the first name it finds.
\<close>

theorem template_baseline_takes_later_font:
  "extract_template_baseline two_font_doc ''Bookman Old Style'' 8
     = Inr (''Calibri'', 10, None, None, None)"
  by (simp add: extract_template_baseline_def two_font_doc_def new_paragraph_def new_run_def
      truthy_defs Pt_def Let_def)

section \<open>Properties of the placeholder replacement\<close>

lemma py_in_Nil: "py_in [] s"
  by (cases s) simp_all

lemma py_in_iff: "py_in needle hay \<longleftrightarrow> (\<exists>a b. hay = a @ needle @ b)"
proof (induction hay)
  case Nil
  then show ?case by auto
next
  case (Cons c cs)
  show ?case
  proof
    assume "py_in needle (c # cs)"
    then consider "prefix needle (c # cs)" | "py_in needle cs" by auto
    then show "\<exists>a b. c # cs = a @ needle @ b"
    proof cases
      case 1
      then obtain b where "c # cs = needle @ b" by (auto simp: prefix_def)
      then have "c # cs = [] @ needle @ b" by simp
      then show ?thesis by blast
    next
      case 2
      with Cons.IH obtain a b where "cs = a @ needle @ b" by blast
      then have "c # cs = (c # a) @ needle @ b" by simp
      then show ?thesis by blast
    qed
  next
    assume "\<exists>a b. c # cs = a @ needle @ b"
    then obtain a b where e: "c # cs = a @ needle @ b" by blast
    show "py_in needle (c # cs)"
    proof (cases a)
      case Nil
      with e have "prefix needle (c # cs)" by (simp add: prefix_def)
      then show ?thesis by simp
    next
      case (Cons x a')
      with e have "cs = a' @ needle @ b" by simp
      with Cons.IH have "py_in needle cs" by blast
      then show ?thesis by simp
    qed
  qed
qed

lemma str_replace_absent: "\<not> py_in old s \<Longrightarrow> str_replace s old new = s"
  by (induction s old new rule: str_replace.induct) auto

lemma py_replace_absent: "\<not> py_in old s \<Longrightarrow> py_replace s old new = s"
  using py_in_Nil [of s] by (auto simp: py_replace_def str_replace_absent)

lemma paragraph_text_set: "paragraph_text (set_paragraph_text p t) = t"
  by (simp add: paragraph_text_def set_paragraph_text_def new_run_def)

lemma replace_in_paragraph_text:
  "paragraph_text (replace_in_paragraph placeholder bank_name p)
     = py_replace (paragraph_text p) placeholder bank_name"
  by (simp add: replace_in_paragraph_def paragraph_text_set py_replace_absent)

lemma replace_in_paragraph_absent:
  "\<not> py_in placeholder (paragraph_text p) \<Longrightarrow> replace_in_paragraph placeholder bank_name p = p"
  by (simp add: replace_in_paragraph_def)

lemma prefix_shorter:
  assumes "prefix old (ys @ zs)" and "length old \<le> length ys"
  shows "prefix old ys"
  using assms by (auto simp: prefix_append)

lemma str_replace_first:
  "old \<noteq> [] \<Longrightarrow> \<not> py_in old (a @ butlast old) \<Longrightarrow>
   str_replace (a @ old @ rest) old new = a @ new @ str_replace rest old new"
proof (induction a)
  case Nil
  then obtain c cs where o: "old = c # cs" by (cases old) auto
  have "str_replace (c # (cs @ rest)) old new
          = new @ str_replace (drop (length old) (c # (cs @ rest))) old new"
    using o by (subst str_replace.simps) simp
  then show ?case using o by simp
next
  case (Cons x a)
  from Cons.prems(2) have np: "\<not> prefix old (x # a @ butlast old)"
    and ni: "\<not> py_in old (a @ butlast old)" by auto
  have "\<not> prefix old (x # a @ old @ rest)"
  proof
    assume p: "prefix old (x # a @ old @ rest)"
    have "x # a @ old @ rest = (x # a @ butlast old) @ (last old # rest)"
      using Cons.prems(1) by simp
    with p have "prefix old ((x # a @ butlast old) @ (last old # rest))" by simp
    moreover have "length old \<le> length (x # a @ butlast old)"
      using Cons.prems(1) by (cases old) auto
    ultimately have "prefix old (x # a @ butlast old)" by (rule prefix_shorter)
    with np show False by blast
  qed
  then have "str_replace (x # a @ old @ rest) old new = x # str_replace (a @ old @ rest) old new"
    by simp
  with Cons.IH [OF Cons.prems(1) ni] show ?case by simp
qed

lemma py_replace_first:
  "old \<noteq> [] \<Longrightarrow> \<not> py_in old (a @ butlast old) \<Longrightarrow>
   py_replace (a @ old @ rest) old new = a @ new @ py_replace rest old new"
  by (simp add: py_replace_def str_replace_first)

lemma paragraph_text_tone:
  "paragraph_text (tone_paragraph tone fn fs p) = paragraph_text p"
  by (simp add: tone_paragraph_def paragraph_text_def Let_def comp_def)

lemma apply_tone_texts:
  "map paragraph_text (d_paragraphs (apply_tone doc tone fn fs)) = map paragraph_text (d_paragraphs doc)"
  by (simp add: apply_tone_def Let_def comp_def paragraph_text_tone)

lemma replaced_table_texts:
  "map (\<lambda>t. map (\<lambda>r. map (\<lambda>c. map paragraph_text (c_paragraphs c)) (row_cells r)) (t_rows t))
         (d_tables (replace_placeholder (apply_tone doc tone fn fs) placeholder bank_name))
     = map (\<lambda>t. map (\<lambda>r. map (\<lambda>c. map (\<lambda>p. py_replace (paragraph_text p) placeholder bank_name)
                                      (c_paragraphs c)) (row_cells r)) (t_rows t))
         (d_tables doc)"
  by (simp add: replace_placeholder_def replace_in_table_def apply_tone_def tone_table_def
      Let_def comp_def replace_in_paragraph_text)

lemma replaced_paragraph_texts:
  "map paragraph_text
     (d_paragraphs (replace_placeholder (apply_tone doc tone fn fs) placeholder bank_name))
   = map (\<lambda>p. py_replace (paragraph_text p) placeholder bank_name) (d_paragraphs doc)"
proof -
  have "map paragraph_text
     (d_paragraphs (replace_placeholder (apply_tone doc tone fn fs) placeholder bank_name))
     = map (\<lambda>t. py_replace t placeholder bank_name)
         (map paragraph_text (d_paragraphs (apply_tone doc tone fn fs)))"
    by (simp add: replace_placeholder_def comp_def replace_in_paragraph_text)
  then show ?thesis
    unfolding apply_tone_texts by (simp add: comp_def)
qed

lemma before_nodal_result:
  assumes "before_nodal doc bank_name accounts placeholder tone font_name font_size
             = Inr (doc3, tf, ts)"
  shows "\<exists>hb. extract_template_baseline doc font_name font_size = Inr (tf, ts, hb)
     \<and> update_accounts_table
          (d_tables (replace_placeholder (apply_tone doc tone None None) placeholder bank_name))
          (d_styles (replace_placeholder (apply_tone doc tone None None) placeholder bank_name))
          accounts tf ts hb = Inr (d_tables doc3)
     \<and> d_paragraphs doc3
         = d_paragraphs (replace_placeholder (apply_tone doc tone None None) placeholder bank_name)"
  using assms
  by (auto simp: before_nodal_def Let_def split: sum.splits prod.splits)

lemma update_accounts_table_others:
  "update_accounts_table ts styles accounts tmpl_font tmpl_size hb = Inr ts1 \<Longrightarrow>
   length ts1 = length ts \<and> (\<forall>k<length ts. \<not> selects_table (ts ! k) \<longrightarrow> ts1 ! k = ts ! k)"
proof (induction ts arbitrary: ts1)
  case Nil
  then show ?case by simp
next
  case (Cons t ts)
  note run = Cons.prems
  show ?case
  proof (cases "selects_table t")
    case True
    then obtain h rest where g: "length (t_grid t) = 3" and r: "t_rows t = h # rest"
      and a: "is_accounts_header h"
      by (auto simp: selects_table_def split: list.splits)
    from run g r a obtain t1 where "ts1 = t1 # ts"
      by (auto simp: py_index_def split: sum.splits)
    with True show ?thesis by (auto simp: nth_Cons split: nat.splits)
  next
    case False
    have "\<exists>ts2. update_accounts_table ts styles accounts tmpl_font tmpl_size hb = Inr ts2
            \<and> ts1 = t # ts2"
    proof (cases "length (t_grid t) = 3")
      case g: True
      show ?thesis
      proof (cases "t_rows t")
        case no_rows: Nil
        with run g show ?thesis by (simp add: py_index_def)
      next
        case rows: (Cons h rest)
        with False g have "\<not> is_accounts_header h" by (simp add: selects_table_def)
        with run g rows show ?thesis
          by (auto simp: py_index_def split: sum.splits)
      qed
    next
      case g: False
      with run show ?thesis by (auto split: sum.splits)
    qed
    then obtain ts2 where
      u: "update_accounts_table ts styles accounts tmpl_font tmpl_size hb = Inr ts2"
      and e: "ts1 = t # ts2"
      by blast
    from Cons.IH [OF u] e show ?thesis by (auto simp: nth_Cons split: nat.splits)
  qed
qed

lemma update_word_template_steps:
  assumes "update_word_template (Inr doc) save_error bank_name accounts placeholder tone
             font_name font_size = (True, Some out)"
  shows "\<exists>doc3 tf ts.
           before_nodal doc bank_name accounts placeholder tone font_name font_size
             = Inr (doc3, tf, ts)
         \<and> nodal_steps doc3 bank_name tf ts = Inr out"
  using assms
  by (auto simp: update_word_template_def update_body_def
      split: sum.splits option.splits prod.splits)

text \<open>
  Claim C3. When \<^verbatim>\<open>update_word_template\<close> succeeds, the document that it saves is the
  result of the nodal officer steps on the document that the steps before them have
  produced, and in that document the text of every body paragraph is the text of the
  paragraph of the template with the placeholder replaced by the bank name. The tables
  that the accounts-table step receives are those of the template with the same
  replacement made in the text of every paragraph of every cell, and that step leaves
  every table other than the one it selects as it is, so these tables still carry the
  replaced texts when the nodal officer steps begin. The replacement itself is
  the placeholder step: it leaves a paragraph whose text does not contain the placeholder
  as it is, and one that contains it ends with one run that holds the new text. Replacing
  rewrites the leftmost occurrence of the placeholder and goes on in the same way behind
  it, and leaves a text without an occurrence unchanged.
\<close>

theorem placeholder_replaced_everywhere:
  "(\<forall>out. update_word_template (Inr doc) save_error bank_name accounts placeholder tone
             font_name font_size = (True, Some out) \<longrightarrow>
      (\<exists>doc3 tf ts.
          before_nodal doc bank_name accounts placeholder tone font_name font_size
            = Inr (doc3, tf, ts)
        \<and> nodal_steps doc3 bank_name tf ts = Inr out))
   \<and> (\<forall>doc3 tf ts.
        before_nodal doc bank_name accounts placeholder tone font_name font_size
          = Inr (doc3, tf, ts) \<longrightarrow>
        map paragraph_text (d_paragraphs doc3)
          = map (\<lambda>p. py_replace (paragraph_text p) placeholder bank_name) (d_paragraphs doc)
        \<and> (\<exists>hb. update_accounts_table
                   (d_tables (replace_placeholder (apply_tone doc tone None None)
                                placeholder bank_name))
                   (d_styles (replace_placeholder (apply_tone doc tone None None)
                                placeholder bank_name))
                   accounts tf ts hb = Inr (d_tables doc3))
        \<and> length (d_tables doc3) = length (d_tables doc)
        \<and> (\<forall>k<length (d_tables doc).
              \<not> selects_table (d_tables (replace_placeholder (apply_tone doc tone None None)
                                            placeholder bank_name) ! k) \<longrightarrow>
              map (\<lambda>r. map (\<lambda>c. map paragraph_text (c_paragraphs c)) (row_cells r))
                  (t_rows (d_tables doc3 ! k))
                = map (\<lambda>r. map (\<lambda>c. map (\<lambda>p. py_replace (paragraph_text p) placeholder bank_name)
                                       (c_paragraphs c)) (row_cells r))
                    (t_rows (d_tables doc ! k))))
   \<and> map (\<lambda>t. map (\<lambda>r. map (\<lambda>c. map paragraph_text (c_paragraphs c)) (row_cells r)) (t_rows t))
         (d_tables (replace_placeholder (apply_tone doc tone None None) placeholder bank_name))
     = map (\<lambda>t. map (\<lambda>r. map (\<lambda>c. map (\<lambda>p. py_replace (paragraph_text p) placeholder bank_name)
                                      (c_paragraphs c)) (row_cells r)) (t_rows t))
         (d_tables doc)
   \<and> map paragraph_text (d_paragraphs (replace_placeholder doc placeholder bank_name))
     = map (\<lambda>p. py_replace (paragraph_text p) placeholder bank_name) (d_paragraphs doc)
   \<and> map (\<lambda>t. map (\<lambda>r. map (\<lambda>c. map paragraph_text (c_paragraphs c)) (row_cells r)) (t_rows t))
         (d_tables (replace_placeholder doc placeholder bank_name))
     = map (\<lambda>t. map (\<lambda>r. map (\<lambda>c. map (\<lambda>p. py_replace (paragraph_text p) placeholder bank_name)
                                      (c_paragraphs c)) (row_cells r)) (t_rows t))
         (d_tables doc)
   \<and> (\<forall>p. \<not> py_in placeholder (paragraph_text p) \<longrightarrow>
          replace_in_paragraph placeholder bank_name p = p)
   \<and> (\<forall>p. py_in placeholder (paragraph_text p) \<longrightarrow>
          p_runs (replace_in_paragraph placeholder bank_name p)
            = [new_run (py_replace (paragraph_text p) placeholder bank_name)])
   \<and> (\<forall>a rest. placeholder \<noteq> [] \<and> \<not> py_in placeholder (a @ butlast placeholder) \<longrightarrow>
          py_replace (a @ placeholder @ rest) placeholder bank_name
            = a @ bank_name @ py_replace rest placeholder bank_name)
   \<and> (\<forall>s. \<not> py_in placeholder s \<longrightarrow> py_replace s placeholder bank_name = s)"
proof -
  have g: "\<forall>out. update_word_template (Inr doc) save_error bank_name accounts placeholder tone
             font_name font_size = (True, Some out) \<longrightarrow>
      (\<exists>doc3 tf ts.
          before_nodal doc bank_name accounts placeholder tone font_name font_size
            = Inr (doc3, tf, ts)
        \<and> nodal_steps doc3 bank_name tf ts = Inr out)"
    using update_word_template_steps by blast
  have h: "\<forall>doc3 tf ts.
        before_nodal doc bank_name accounts placeholder tone font_name font_size
          = Inr (doc3, tf, ts) \<longrightarrow>
        map paragraph_text (d_paragraphs doc3)
          = map (\<lambda>p. py_replace (paragraph_text p) placeholder bank_name) (d_paragraphs doc)
        \<and> (\<exists>hb. update_accounts_table
                   (d_tables (replace_placeholder (apply_tone doc tone None None)
                                placeholder bank_name))
                   (d_styles (replace_placeholder (apply_tone doc tone None None)
                                placeholder bank_name))
                   accounts tf ts hb = Inr (d_tables doc3))
        \<and> length (d_tables doc3) = length (d_tables doc)
        \<and> (\<forall>k<length (d_tables doc).
              \<not> selects_table (d_tables (replace_placeholder (apply_tone doc tone None None)
                                            placeholder bank_name) ! k) \<longrightarrow>
              map (\<lambda>r. map (\<lambda>c. map paragraph_text (c_paragraphs c)) (row_cells r))
                  (t_rows (d_tables doc3 ! k))
                = map (\<lambda>r. map (\<lambda>c. map (\<lambda>p. py_replace (paragraph_text p) placeholder bank_name)
                                       (c_paragraphs c)) (row_cells r))
                    (t_rows (d_tables doc ! k)))"
  proof (intro allI impI)
    fix doc3 tf ts
    assume "before_nodal doc bank_name accounts placeholder tone font_name font_size
          = Inr (doc3, tf, ts)"
    from before_nodal_result [OF this] obtain hb where
      u: "update_accounts_table
          (d_tables (replace_placeholder (apply_tone doc tone None None) placeholder bank_name))
          (d_styles (replace_placeholder (apply_tone doc tone None None) placeholder bank_name))
          accounts tf ts hb = Inr (d_tables doc3)"
      and p: "d_paragraphs doc3
         = d_paragraphs (replace_placeholder (apply_tone doc tone None None) placeholder bank_name)"
      by blast
    let ?D2 = "replace_placeholder (apply_tone doc tone None None) placeholder bank_name"
    have tx: "map paragraph_text (d_paragraphs doc3)
          = map (\<lambda>p. py_replace (paragraph_text p) placeholder bank_name) (d_paragraphs doc)"
      unfolding p by (rule replaced_paragraph_texts)
    have l2: "length (d_tables ?D2) = length (d_tables doc)"
      by (simp add: replace_placeholder_def apply_tone_def Let_def)
    from update_accounts_table_others [OF u]
    have l3: "length (d_tables doc3) = length (d_tables ?D2)"
      and same: "\<forall>k<length (d_tables ?D2). \<not> selects_table (d_tables ?D2 ! k) \<longrightarrow>
                   d_tables doc3 ! k = d_tables ?D2 ! k"
      by simp_all
    from l3 l2 have len: "length (d_tables doc3) = length (d_tables doc)" by simp
    have others: "\<forall>k<length (d_tables doc).
              \<not> selects_table (d_tables ?D2 ! k) \<longrightarrow>
              map (\<lambda>r. map (\<lambda>c. map paragraph_text (c_paragraphs c)) (row_cells r))
                  (t_rows (d_tables doc3 ! k))
                = map (\<lambda>r. map (\<lambda>c. map (\<lambda>p. py_replace (paragraph_text p) placeholder bank_name)
                                       (c_paragraphs c)) (row_cells r))
                    (t_rows (d_tables doc ! k))"
    proof (intro allI impI)
      fix k assume k: "k < length (d_tables doc)"
        and ns: "\<not> selects_table (d_tables ?D2 ! k)"
      from k l2 have k2: "k < length (d_tables ?D2)" by simp
      with same ns have e: "d_tables doc3 ! k = d_tables ?D2 ! k" by blast
      from arg_cong [OF replaced_table_texts [of doc tone None None placeholder bank_name],
          of "\<lambda>xs. xs ! k"] k k2
      show "map (\<lambda>r. map (\<lambda>c. map paragraph_text (c_paragraphs c)) (row_cells r))
                  (t_rows (d_tables doc3 ! k))
                = map (\<lambda>r. map (\<lambda>c. map (\<lambda>p. py_replace (paragraph_text p) placeholder bank_name)
                                       (c_paragraphs c)) (row_cells r))
                    (t_rows (d_tables doc ! k))"
        unfolding e by simp
    qed
    from tx u len others show "map paragraph_text (d_paragraphs doc3)
          = map (\<lambda>p. py_replace (paragraph_text p) placeholder bank_name) (d_paragraphs doc)
        \<and> (\<exists>hb. update_accounts_table
                   (d_tables (replace_placeholder (apply_tone doc tone None None)
                                placeholder bank_name))
                   (d_styles (replace_placeholder (apply_tone doc tone None None)
                                placeholder bank_name))
                   accounts tf ts hb = Inr (d_tables doc3))
        \<and> length (d_tables doc3) = length (d_tables doc)
        \<and> (\<forall>k<length (d_tables doc).
              \<not> selects_table (d_tables (replace_placeholder (apply_tone doc tone None None)
                                            placeholder bank_name) ! k) \<longrightarrow>
              map (\<lambda>r. map (\<lambda>c. map paragraph_text (c_paragraphs c)) (row_cells r))
                  (t_rows (d_tables doc3 ! k))
                = map (\<lambda>r. map (\<lambda>c. map (\<lambda>p. py_replace (paragraph_text p) placeholder bank_name)
                                       (c_paragraphs c)) (row_cells r))
                    (t_rows (d_tables doc ! k)))"
      by (intro conjI exI [of _ hb])
  qed
  note i = replaced_table_texts [of doc tone None None placeholder bank_name]
  have a: "map paragraph_text (d_paragraphs (replace_placeholder doc placeholder bank_name))
     = map (\<lambda>p. py_replace (paragraph_text p) placeholder bank_name) (d_paragraphs doc)"
    by (simp add: replace_placeholder_def comp_def replace_in_paragraph_text)
  have b: "map (\<lambda>t. map (\<lambda>r. map (\<lambda>c. map paragraph_text (c_paragraphs c)) (row_cells r)) (t_rows t))
         (d_tables (replace_placeholder doc placeholder bank_name))
     = map (\<lambda>t. map (\<lambda>r. map (\<lambda>c. map (\<lambda>p. py_replace (paragraph_text p) placeholder bank_name)
                                      (c_paragraphs c)) (row_cells r)) (t_rows t))
         (d_tables doc)"
    by (simp add: replace_placeholder_def replace_in_table_def comp_def replace_in_paragraph_text)
  have c: "\<forall>p. \<not> py_in placeholder (paragraph_text p) \<longrightarrow>
          replace_in_paragraph placeholder bank_name p = p"
    by (simp add: replace_in_paragraph_absent)
  have d: "\<forall>p. py_in placeholder (paragraph_text p) \<longrightarrow>
          p_runs (replace_in_paragraph placeholder bank_name p)
            = [new_run (py_replace (paragraph_text p) placeholder bank_name)]"
    by (simp add: replace_in_paragraph_def set_paragraph_text_def)
  have e: "\<forall>a rest. placeholder \<noteq> [] \<and> \<not> py_in placeholder (a @ butlast placeholder) \<longrightarrow>
          py_replace (a @ placeholder @ rest) placeholder bank_name
            = a @ bank_name @ py_replace rest placeholder bank_name"
    by (simp add: py_replace_first)
  have f: "\<forall>s. \<not> py_in placeholder s \<longrightarrow> py_replace s placeholder bank_name = s"
    by (simp add: py_replace_absent)
  from g h i a b c d e f show ?thesis by (intro conjI)
qed

lemmas sample_doc_defs =
  sample_template_def text_table_def text_row_def text_cell_def new_cell_def sample_text_defs

lemmas doc_eval_defs =
  update_body_def before_nodal_def nodal_steps_def extract_template_baseline_def
  apply_tone_def resolve_tone_def detect_tone_def tone_paragraph_def tone_table_def
  replace_placeholder_def replace_in_table_def replace_in_paragraph_def
  set_paragraph_text_def py_replace_def is_accounts_header_def header_spacing_of_def
  get_cell_width_def cell_text_def regenerate_accounts_table_def new_account_row_def
  add_row_def set_cell_text_def style_account_cell_def restyle_header_cell_def
  set_cell_margins_def set_cell_borders_def set_table_borders_def set_table_grid_style_def
  single_border_def apply_paragraph_style_def apply_spacing_def apply_indent_def
  set_cell_width_def row_height_or_default_def extract_nodal_baseline_def
  apply_baseline_to_paragraph_def nodal_paragraphs_def nodal_table_def nodal_cell_def
  mentions_nodal_def table_cell_def update_cell_def py_index_def enumerate_eq_zip
  truthy_defs Pt_def lower_defs sample_doc_defs sample_accounts_def Let_def

lemma sample_notice_saved:
  "\<exists>out. update_word_template (Inr sample_template) None ''HDFC BANK'' sample_accounts
            ''ICICI BANK'' ''formal'' ''Bookman Old Style'' 8 = (True, Some out)"
proof -
  have "\<exists>out. update_body sample_template ''HDFC BANK'' sample_accounts
            ''ICICI BANK'' ''formal'' ''Bookman Old Style'' 8 = Inr out"
    by (simp add: doc_eval_defs upt_rec)
  then show ?thesis by (auto simp: update_word_template_def)
qed

theorem placeholder_replaced_everywhere_witness:
  "(\<exists>out doc3 tf ts.
       update_word_template (Inr sample_template) None ''HDFC BANK'' sample_accounts
         ''ICICI BANK'' ''formal'' ''Bookman Old Style'' 8 = (True, Some out)
     \<and> before_nodal sample_template ''HDFC BANK'' sample_accounts
         ''ICICI BANK'' ''formal'' ''Bookman Old Style'' 8 = Inr (doc3, tf, ts)
     \<and> nodal_steps doc3 ''HDFC BANK'' tf ts = Inr out
     \<and> map paragraph_text (d_paragraphs doc3)
         = [''To HDFC BANK'', ''Nodal Officer'', ''HDFC BANK, HDFC BANK branch'', ''Regards''])
   \<and> map (\<lambda>r. map (\<lambda>c. map paragraph_text (c_paragraphs c)) (row_cells r))
       (t_rows (d_tables (fst (projr (before_nodal nodal_table_doc ''HDFC BANK'' []
          ''ICICI BANK'' ''formal'' ''Bookman Old Style'' 8))) ! 0))
     = [[[''Nodal Officer''], [''Branch'']], [[''Old officer''], [''HDFC BANK branch'']]]
   \<and> map paragraph_text (d_paragraphs (replace_placeholder sample_template ''ICICI BANK'' ''HDFC BANK''))
     = [''To HDFC BANK'', ''Nodal Officer'', ''HDFC BANK, HDFC BANK branch'', ''Regards'']
   \<and> replace_in_paragraph ''ICICI BANK'' ''HDFC BANK'' (text_paragraph ''Regards'')
       = text_paragraph ''Regards''
   \<and> py_replace (''To '' @ ''ICICI BANK'' @ ''!'') ''ICICI BANK'' ''HDFC BANK''
       = ''To '' @ ''HDFC BANK'' @ py_replace ''!'' ''ICICI BANK'' ''HDFC BANK''"
proof -
  note t = placeholder_replaced_everywhere [where doc = sample_template
      and placeholder = "''ICICI BANK''" and bank_name = "''HDFC BANK''"
      and save_error = None and accounts = sample_accounts and tone = "''formal''"
      and font_name = "''Bookman Old Style''" and font_size = 8]
  have v: "map (\<lambda>p. py_replace (paragraph_text p) ''ICICI BANK'' ''HDFC BANK'')
             (d_paragraphs sample_template)
           = [''To HDFC BANK'', ''Nodal Officer'', ''HDFC BANK, HDFC BANK branch'', ''Regards'']"
    by (simp add: sample_doc_defs py_replace_def)
  from sample_notice_saved obtain out where
    s: "update_word_template (Inr sample_template) None ''HDFC BANK'' sample_accounts
          ''ICICI BANK'' ''formal'' ''Bookman Old Style'' 8 = (True, Some out)"
    by blast
  from t have "\<forall>out. update_word_template (Inr sample_template) None ''HDFC BANK''
        sample_accounts ''ICICI BANK'' ''formal'' ''Bookman Old Style'' 8 = (True, Some out) \<longrightarrow>
      (\<exists>doc3 tf ts.
          before_nodal sample_template ''HDFC BANK'' sample_accounts ''ICICI BANK'' ''formal''
            ''Bookman Old Style'' 8 = Inr (doc3, tf, ts)
        \<and> nodal_steps doc3 ''HDFC BANK'' tf ts = Inr out)"
    by (rule conjunct1)
  with s obtain doc3 tf ts where
    bn: "before_nodal sample_template ''HDFC BANK'' sample_accounts ''ICICI BANK'' ''formal''
            ''Bookman Old Style'' 8 = Inr (doc3, tf, ts)"
    and ns: "nodal_steps doc3 ''HDFC BANK'' tf ts = Inr out"
    by blast
  from t have "\<forall>doc3 tf ts.
        before_nodal sample_template ''HDFC BANK'' sample_accounts ''ICICI BANK'' ''formal''
          ''Bookman Old Style'' 8 = Inr (doc3, tf, ts) \<longrightarrow>
        map paragraph_text (d_paragraphs doc3)
          = map (\<lambda>p. py_replace (paragraph_text p) ''ICICI BANK'' ''HDFC BANK'')
              (d_paragraphs sample_template)
        \<and> (\<exists>hb. update_accounts_table
                   (d_tables (replace_placeholder (apply_tone sample_template ''formal'' None None)
                                ''ICICI BANK'' ''HDFC BANK''))
                   (d_styles (replace_placeholder (apply_tone sample_template ''formal'' None None)
                                ''ICICI BANK'' ''HDFC BANK''))
                   sample_accounts tf ts hb = Inr (d_tables doc3))
        \<and> length (d_tables doc3) = length (d_tables sample_template)
        \<and> (\<forall>k<length (d_tables sample_template).
              \<not> selects_table (d_tables (replace_placeholder
                    (apply_tone sample_template ''formal'' None None)
                    ''ICICI BANK'' ''HDFC BANK'') ! k) \<longrightarrow>
              map (\<lambda>r. map (\<lambda>c. map paragraph_text (c_paragraphs c)) (row_cells r))
                  (t_rows (d_tables doc3 ! k))
                = map (\<lambda>r. map (\<lambda>c. map (\<lambda>p. py_replace (paragraph_text p) ''ICICI BANK''
                                                ''HDFC BANK'')
                                       (c_paragraphs c)) (row_cells r))
                    (t_rows (d_tables sample_template ! k)))"
    by (rule conjunct2 [THEN conjunct1])
  from this [rule_format, OF bn] have "map paragraph_text (d_paragraphs doc3)
          = map (\<lambda>p. py_replace (paragraph_text p) ''ICICI BANK'' ''HDFC BANK'')
              (d_paragraphs sample_template)"
    by (rule conjunct1)
  with v have tx: "map paragraph_text (d_paragraphs doc3)
         = [''To HDFC BANK'', ''Nodal Officer'', ''HDFC BANK, HDFC BANK branch'', ''Regards'']"
    by simp
  have w: "\<exists>out doc3 tf ts.
       update_word_template (Inr sample_template) None ''HDFC BANK'' sample_accounts
         ''ICICI BANK'' ''formal'' ''Bookman Old Style'' 8 = (True, Some out)
     \<and> before_nodal sample_template ''HDFC BANK'' sample_accounts
         ''ICICI BANK'' ''formal'' ''Bookman Old Style'' 8 = Inr (doc3, tf, ts)
     \<and> nodal_steps doc3 ''HDFC BANK'' tf ts = Inr out
     \<and> map paragraph_text (d_paragraphs doc3)
         = [''To HDFC BANK'', ''Nodal Officer'', ''HDFC BANK, HDFC BANK branch'', ''Regards'']"
    by (rule exI [of _ out], rule exI [of _ doc3], rule exI [of _ tf], rule exI [of _ ts])
      (intro conjI s bn ns tx)
  define N where
    "N = fst (projr (before_nodal nodal_table_doc ''HDFC BANK'' [] ''ICICI BANK''
                       ''formal'' ''Bookman Old Style'' 8))"
  have nb: "before_nodal nodal_table_doc ''HDFC BANK'' [] ''ICICI BANK''
              ''formal'' ''Bookman Old Style'' 8 = Inr (N, ''Calibri'', 11)"
    unfolding N_def by (simp add: nodal_table_doc_def doc_eval_defs upt_rec)
  have ns: "\<not> selects_table (d_tables (replace_placeholder
                (apply_tone nodal_table_doc ''formal'' None None)
                ''ICICI BANK'' ''HDFC BANK'') ! 0)"
    by (simp add: selects_table_def nodal_table_doc_def replace_placeholder_def
        replace_in_table_def apply_tone_def tone_table_def text_table_def Let_def)
  have k0: "0 < length (d_tables nodal_table_doc)"
    by (simp add: nodal_table_doc_def)
  have rv: "map (\<lambda>r. map (\<lambda>c. map (\<lambda>p. py_replace (paragraph_text p) ''ICICI BANK''
                                         ''HDFC BANK'')
                                (c_paragraphs c)) (row_cells r))
             (t_rows (d_tables nodal_table_doc ! 0))
          = [[[''Nodal Officer''], [''Branch'']], [[''Old officer''], [''HDFC BANK branch'']]]"
    by (simp add: nodal_table_doc_def text_table_def text_row_def text_cell_def new_cell_def
        sample_text_defs py_replace_def)
  note t2 = placeholder_replaced_everywhere [where doc = nodal_table_doc
      and placeholder = "''ICICI BANK''" and bank_name = "''HDFC BANK''"
      and accounts = "[]" and tone = "''formal''"
      and font_name = "''Bookman Old Style''" and font_size = 8]
  from t2 have "\<forall>doc3 tf ts.
        before_nodal nodal_table_doc ''HDFC BANK'' [] ''ICICI BANK'' ''formal''
          ''Bookman Old Style'' 8 = Inr (doc3, tf, ts) \<longrightarrow>
        map paragraph_text (d_paragraphs doc3)
          = map (\<lambda>p. py_replace (paragraph_text p) ''ICICI BANK'' ''HDFC BANK'')
              (d_paragraphs nodal_table_doc)
        \<and> (\<exists>hb. update_accounts_table
                   (d_tables (replace_placeholder (apply_tone nodal_table_doc ''formal'' None None)
                                ''ICICI BANK'' ''HDFC BANK''))
                   (d_styles (replace_placeholder (apply_tone nodal_table_doc ''formal'' None None)
                                ''ICICI BANK'' ''HDFC BANK''))
                   [] tf ts hb = Inr (d_tables doc3))
        \<and> length (d_tables doc3) = length (d_tables nodal_table_doc)
        \<and> (\<forall>k<length (d_tables nodal_table_doc).
              \<not> selects_table (d_tables (replace_placeholder
                    (apply_tone nodal_table_doc ''formal'' None None)
                    ''ICICI BANK'' ''HDFC BANK'') ! k) \<longrightarrow>
              map (\<lambda>r. map (\<lambda>c. map paragraph_text (c_paragraphs c)) (row_cells r))
                  (t_rows (d_tables doc3 ! k))
                = map (\<lambda>r. map (\<lambda>c. map (\<lambda>p. py_replace (paragraph_text p) ''ICICI BANK''
                                                ''HDFC BANK'')
                                       (c_paragraphs c)) (row_cells r))
                    (t_rows (d_tables nodal_table_doc ! k)))"
    by (rule conjunct2 [THEN conjunct1])
  from this [rule_format, OF nb]
  have "\<forall>k<length (d_tables nodal_table_doc).
              \<not> selects_table (d_tables (replace_placeholder
                    (apply_tone nodal_table_doc ''formal'' None None)
                    ''ICICI BANK'' ''HDFC BANK'') ! k) \<longrightarrow>
              map (\<lambda>r. map (\<lambda>c. map paragraph_text (c_paragraphs c)) (row_cells r))
                  (t_rows (d_tables N ! k))
                = map (\<lambda>r. map (\<lambda>c. map (\<lambda>p. py_replace (paragraph_text p) ''ICICI BANK''
                                                ''HDFC BANK'')
                                       (c_paragraphs c)) (row_cells r))
                    (t_rows (d_tables nodal_table_doc ! k))"
    by (rule conjunct2 [THEN conjunct2, THEN conjunct2])
  from this [rule_format, OF k0 ns] rv
  have tabs: "map (\<lambda>r. map (\<lambda>c. map paragraph_text (c_paragraphs c)) (row_cells r))
       (t_rows (d_tables (fst (projr (before_nodal nodal_table_doc ''HDFC BANK'' []
          ''ICICI BANK'' ''formal'' ''Bookman Old Style'' 8))) ! 0))
     = [[[''Nodal Officer''], [''Branch'']], [[''Old officer''], [''HDFC BANK branch'']]]"
    unfolding N_def by simp
  from t have "map paragraph_text
        (d_paragraphs (replace_placeholder sample_template ''ICICI BANK'' ''HDFC BANK''))
      = map (\<lambda>p. py_replace (paragraph_text p) ''ICICI BANK'' ''HDFC BANK'')
          (d_paragraphs sample_template)"
    by (rule conjunct2 [THEN conjunct2, THEN conjunct2, THEN conjunct1])
  with v have a: "map paragraph_text
        (d_paragraphs (replace_placeholder sample_template ''ICICI BANK'' ''HDFC BANK''))
      = [''To HDFC BANK'', ''Nodal Officer'', ''HDFC BANK, HDFC BANK branch'', ''Regards'']"
    by simp
  have n: "\<not> py_in ''ICICI BANK'' (paragraph_text (text_paragraph ''Regards''))"
    by (simp add: sample_text_defs)
  from t have "\<forall>p. \<not> py_in ''ICICI BANK'' (paragraph_text p) \<longrightarrow>
          replace_in_paragraph ''ICICI BANK'' ''HDFC BANK'' p = p"
    by (rule conjunct2 [THEN conjunct2, THEN conjunct2, THEN conjunct2, THEN conjunct2,
          THEN conjunct1])
  with n have b: "replace_in_paragraph ''ICICI BANK'' ''HDFC BANK'' (text_paragraph ''Regards'')
       = text_paragraph ''Regards''"
    by blast
  have m: "''ICICI BANK'' \<noteq> [] \<and> \<not> py_in ''ICICI BANK'' (''To '' @ butlast ''ICICI BANK'')"
    by simp
  from t have "\<forall>a rest. ''ICICI BANK'' \<noteq> [] \<and> \<not> py_in ''ICICI BANK'' (a @ butlast ''ICICI BANK'') \<longrightarrow>
          py_replace (a @ ''ICICI BANK'' @ rest) ''ICICI BANK'' ''HDFC BANK''
            = a @ ''HDFC BANK'' @ py_replace rest ''ICICI BANK'' ''HDFC BANK''"
    by (rule conjunct2 [THEN conjunct2, THEN conjunct2, THEN conjunct2, THEN conjunct2,
          THEN conjunct2, THEN conjunct2, THEN conjunct1])
  with m have c: "py_replace (''To '' @ ''ICICI BANK'' @ ''!'') ''ICICI BANK'' ''HDFC BANK''
       = ''To '' @ ''HDFC BANK'' @ py_replace ''!'' ''ICICI BANK'' ''HDFC BANK''"
    by blast
  from w tabs a b c show ?thesis by (intro conjI)
qed

section \<open>Failures of one notice\<close>

lemma generate_notices_accumulates:
  "generate_notices U groups template save_error placeholder tone font_name font_size
     success_count printed
   = (success_count
        + length (filter snd
            (map (\<lambda>(code, accounts).
                    (output_file_name (get_bank_name U (Some code)) code,
                     fst (update_word_template template
                            (save_error (output_file_name (get_bank_name U (Some code)) code))
                            (get_bank_name U (Some code)) accounts
                            placeholder tone font_name font_size)))
                 groups)),
      printed
        @ map (\<lambda>(code, accounts).
                 (output_file_name (get_bank_name U (Some code)) code,
                  fst (update_word_template template
                         (save_error (output_file_name (get_bank_name U (Some code)) code))
                         (get_bank_name U (Some code)) accounts
                         placeholder tone font_name font_size)))
              groups)"
proof (induction groups arbitrary: success_count printed)
  case Nil
  then show ?case by simp
next
  case (Cons g groups)
  obtain code accounts where g: "g = (code, accounts)" by (cases g)
  show ?case unfolding g by (simp add: Cons.IH Let_def)
qed

text \<open>
  Claim C9. \<^verbatim>\<open>update_word_template\<close> returns a boolean in every case: true exactly when the
  template has been loaded, the transformation has raised nothing and the document has
  been saved, and false with no document otherwise, whether the failure is in loading, in
  the extraction or mutation, or in saving. The loop of \<^verbatim>\<open>main\<close> handles every group
  whatever the outcome of the groups before it: it prints one line per group, in the
  order of the groups, whose flag is the outcome of that group alone, and its counter is
  the number of groups that succeeded.
\<close>

theorem failures_are_returned_not_raised:
  "(fst (update_word_template template save_error bank_name accounts placeholder tone
           font_name font_size)
      \<longleftrightarrow> (\<exists>doc doc1. template = Inr doc
             \<and> update_body doc bank_name accounts placeholder tone font_name font_size = Inr doc1
             \<and> save_error = None))
   \<and> (\<not> fst (update_word_template template save_error bank_name accounts placeholder tone
               font_name font_size)
        \<longrightarrow> update_word_template template save_error bank_name accounts placeholder tone
              font_name font_size = (False, None))
   \<and> generate_notices U groups template save_errors placeholder tone font_name font_size 0 []
       = (length (filter snd
            (map (\<lambda>(code, accounts).
                    (output_file_name (get_bank_name U (Some code)) code,
                     fst (update_word_template template
                            (save_errors (output_file_name (get_bank_name U (Some code)) code))
                            (get_bank_name U (Some code)) accounts
                            placeholder tone font_name font_size)))
                 groups)),
          map (\<lambda>(code, accounts).
                 (output_file_name (get_bank_name U (Some code)) code,
                  fst (update_word_template template
                         (save_errors (output_file_name (get_bank_name U (Some code)) code))
                         (get_bank_name U (Some code)) accounts
                         placeholder tone font_name font_size)))
              groups)"
proof -
  have a: "fst (update_word_template template save_error bank_name accounts placeholder tone
           font_name font_size)
      \<longleftrightarrow> (\<exists>doc doc1. template = Inr doc
             \<and> update_body doc bank_name accounts placeholder tone font_name font_size = Inr doc1
             \<and> save_error = None)"
    by (auto simp: update_word_template_def split: sum.splits option.splits)
  have b: "\<not> fst (update_word_template template save_error bank_name accounts placeholder tone
               font_name font_size)
        \<longrightarrow> update_word_template template save_error bank_name accounts placeholder tone
              font_name font_size = (False, None)"
    by (auto simp: update_word_template_def split: sum.splits option.splits)
  note c = generate_notices_accumulates [of U groups template save_errors placeholder tone
      font_name font_size 0 "[]"]
  from a b c show ?thesis by simp
qed

lemma sample_update_succeeds:
  "\<exists>doc1. update_body sample_template ''HDFC BANK''
            [\<lparr>account_no = ''1002'', account_name = ''Ravi'', ifsc = ''HDFC0000001''\<rparr>]
            ''ICICI BANK'' ''formal'' ''Bookman Old Style'' 8 = Inr doc1"
  by (simp add: doc_eval_defs upt_rec)

theorem failures_are_returned_not_raised_witness:
  "fst (update_word_template (Inr sample_template) None ''HDFC BANK''
          [\<lparr>account_no = ''1002'', account_name = ''Ravi'', ifsc = ''HDFC0000001''\<rparr>]
          ''ICICI BANK'' ''formal'' ''Bookman Old Style'' 8)
   \<and> update_word_template (Inl PackageNotFoundError) None ''HDFC BANK'' [] ''ICICI BANK''
       ''formal'' ''Bookman Old Style'' 8 = (False, None)
   \<and> update_word_template (Inr sample_template) (Some OSError) ''HDFC BANK'' [] ''ICICI BANK''
       ''formal'' ''Bookman Old Style'' 8 = (False, None)
   \<and> generate_notices ascii_unicode sample_grouped (Inr sample_template)
       (\<lambda>f. if f = ''Notice_STATE_BANK_OF_INDIA_SBIN0001234.docx'' then Some OSError else None)
       ''ICICI BANK'' ''formal'' ''Bookman Old Style'' 8 0 []
     = (1, [(''Notice_STATE_BANK_OF_INDIA_SBIN0001234.docx'', False),
            (''Notice_HDFC_BANK_HDFC0000001.docx'', True)])"
proof -
  note ok = failures_are_returned_not_raised [of "Inr sample_template" None "''HDFC BANK''"
      "[\<lparr>account_no = ''1002'', account_name = ''Ravi'', ifsc = ''HDFC0000001''\<rparr>]"
      "''ICICI BANK''" "''formal''" "''Bookman Old Style''" 8]
  from ok sample_update_succeeds
  have a: "fst (update_word_template (Inr sample_template) None ''HDFC BANK''
          [\<lparr>account_no = ''1002'', account_name = ''Ravi'', ifsc = ''HDFC0000001''\<rparr>]
          ''ICICI BANK'' ''formal'' ''Bookman Old Style'' 8)"
    by blast
  note load = failures_are_returned_not_raised [of "Inl PackageNotFoundError" None
      "''HDFC BANK''" "[]" "''ICICI BANK''" "''formal''" "''Bookman Old Style''" 8]
  from load have b: "update_word_template (Inl PackageNotFoundError) None ''HDFC BANK'' []
       ''ICICI BANK'' ''formal'' ''Bookman Old Style'' 8 = (False, None)"
    by simp
  note sv = failures_are_returned_not_raised [of "Inr sample_template" "Some OSError"
      "''HDFC BANK''" "[]" "''ICICI BANK''" "''formal''" "''Bookman Old Style''" 8]
  from sv have c: "update_word_template (Inr sample_template) (Some OSError) ''HDFC BANK'' []
       ''ICICI BANK'' ''formal'' ''Bookman Old Style'' 8 = (False, None)"
    by simp
  have sb: "get_bank_name ascii_unicode (Some ''SBIN0001234'') = ''STATE BANK OF INDIA''"
    using get_bank_name_SBIN [of ascii_unicode] by (simp add: lit_ascii case_defs)
  have n1: "output_file_name (get_bank_name ascii_unicode (Some ''SBIN0001234'')) ''SBIN0001234''
            = ''Notice_STATE_BANK_OF_INDIA_SBIN0001234.docx''"
    by (simp add: output_file_name_def sb py_replace_def)
  have n2: "output_file_name ''HDFC BANK'' ''HDFC0000001''
            = ''Notice_HDFC_BANK_HDFC0000001.docx''"
    by (simp add: output_file_name_def py_replace_def)
  have l: "\<And>b a. fst (update_word_template (Inr sample_template) (Some OSError) b a
       ''ICICI BANK'' ''formal'' ''Bookman Old Style'' 8) = False"
    by (simp add: update_word_template_def split: sum.splits)
  have h: "get_bank_name ascii_unicode (Some ''HDFC0000001'') = ''HDFC BANK''"
    by (simp add: get_bank_name_def bank_map_get_def lit_ascii IFSC_BANK_MAP_def case_defs)
  note run = failures_are_returned_not_raised [of "Inr sample_template" None "''HDFC BANK''"
      "[]" "''ICICI BANK''" "''formal''" "''Bookman Old Style''" 8 ascii_unicode sample_grouped
      "\<lambda>f. if f = ''Notice_STATE_BANK_OF_INDIA_SBIN0001234.docx'' then Some OSError else None"]
  let ?save = "\<lambda>f. if f = ''Notice_STATE_BANK_OF_INDIA_SBIN0001234.docx'' then Some OSError
                   else None"
  let ?line = "\<lambda>(code, accounts).
                 (output_file_name (get_bank_name ascii_unicode (Some code)) code,
                  fst (update_word_template (Inr sample_template)
                         (?save (output_file_name (get_bank_name ascii_unicode (Some code)) code))
                         (get_bank_name ascii_unicode (Some code)) accounts
                         ''ICICI BANK'' ''formal'' ''Bookman Old Style'' 8))"
  from run have g: "generate_notices ascii_unicode sample_grouped (Inr sample_template) ?save
       ''ICICI BANK'' ''formal'' ''Bookman Old Style'' 8 0 []
     = (length (filter snd (map ?line sample_grouped)), map ?line sample_grouped)"
    by (rule conjunct2 [THEN conjunct2])
  have m: "map ?line sample_grouped
     = [(''Notice_STATE_BANK_OF_INDIA_SBIN0001234.docx'', False),
        (''Notice_HDFC_BANK_HDFC0000001.docx'', True)]"
    using a by (simp add: sample_grouped_def n1 n2 l h)
  have d: "generate_notices ascii_unicode sample_grouped (Inr sample_template) ?save
       ''ICICI BANK'' ''formal'' ''Bookman Old Style'' 8 0 []
     = (1, [(''Notice_STATE_BANK_OF_INDIA_SBIN0001234.docx'', False),
            (''Notice_HDFC_BANK_HDFC0000001.docx'', True)])"
    unfolding g m by simp
  from a b c d show ?thesis by (intro conjI)
qed

section \<open>Properties of the nodal officer steps\<close>

lemma nodal_paragraphs_loop_suffix:
  "nodal_paragraphs_loop [length pre..<length pre + length rest] bank_name baseline styles
     (pre @ rest)
   = pre @ nodal_paragraphs_effect bank_name baseline styles rest"
proof (induction bank_name baseline styles rest arbitrary: pre
       rule: nodal_paragraphs_effect.induct)
  case (3 bank_name baseline styles p q ps)
  let ?q = "if mentions_nodal (paragraph_text p)
            then apply_baseline_to_paragraph q bank_name baseline styles else q"
  define rest_idx where
    "rest_idx = [length (pre @ [p])..<length (pre @ [p]) + length (?q # ps)]"
  have "[length pre..<length pre + length (p # q # ps)]
        = length pre # [Suc (length pre)..<length pre + length (p # q # ps)]"
    by (rule upt_conv_Cons) simp
  moreover have "length (pre @ [p]) = Suc (length pre)"
    and "length pre + length (p # q # ps) = length (pre @ [p]) + length (?q # ps)"
    by simp_all
  ultimately have idx: "[length pre..<length pre + length (p # q # ps)]
        = length pre # rest_idx"
    unfolding rest_idx_def by (simp only:)
  have ih: "nodal_paragraphs_loop rest_idx bank_name baseline styles ((pre @ [p]) @ ?q # ps)
        = (pre @ [p]) @ nodal_paragraphs_effect bank_name baseline styles (?q # ps)"
    unfolding rest_idx_def by (rule "3.IH")
  have cur: "(pre @ p # q # ps) ! length pre = p" by simp
  have nxt: "(pre @ p # q # ps) ! (length pre + 1) = q"
    by (simp add: nth_append)
  have upd: "(pre @ p # q # ps)[length pre + 1 := x] = (pre @ [p]) @ x # ps" for x
    by (simp add: list_update_append)
  have same: "pre @ p # q # ps = (pre @ [p]) @ q # ps" by simp
  have len: "length pre + 1 < length (pre @ p # q # ps)" by simp
  show ?case
  proof (cases "mentions_nodal (paragraph_text p)")
    case True
    have "nodal_paragraphs_loop (length pre # rest_idx) bank_name baseline styles
            (pre @ p # q # ps)
          = nodal_paragraphs_loop rest_idx bank_name baseline styles
              ((pre @ [p]) @ apply_baseline_to_paragraph q bank_name baseline styles # ps)"
      using True len by (simp only: nodal_paragraphs_loop.simps cur nxt upd if_True simp_thms)
    with ih True show ?thesis unfolding idx by simp
  next
    case False
    have "nodal_paragraphs_loop (length pre # rest_idx) bank_name baseline styles
            (pre @ p # q # ps)
          = nodal_paragraphs_loop rest_idx bank_name baseline styles (pre @ p # q # ps)"
      using False by (simp only: nodal_paragraphs_loop.simps cur if_False simp_thms)
    with ih False show ?thesis unfolding idx by simp
  qed
next
  case (1 bank_name baseline styles)
  then show ?case by simp
next
  case (2 bank_name baseline styles v)
  then show ?case by simp
qed

lemma nodal_paragraphs_effect_eq:
  "nodal_paragraphs bank_name baseline styles ps
     = nodal_paragraphs_effect bank_name baseline styles ps"
  using nodal_paragraphs_loop_suffix [of "[]" ps bank_name baseline styles]
  by (simp add: nodal_paragraphs_def)

lemma nodal_paragraphs_effect_length:
  "length (nodal_paragraphs_effect bank_name baseline styles ps) = length ps"
  by (induction bank_name baseline styles ps rule: nodal_paragraphs_effect.induct) simp_all

lemma nodal_paragraphs_effect_hd:
  "nodal_paragraphs_effect bank_name baseline styles (p # ps) ! 0 = p"
  by (cases ps) simp_all

lemma nodal_paragraphs_effect_nth:
  "i + 1 < length ps \<Longrightarrow>
   nodal_paragraphs_effect bank_name baseline styles ps ! (i + 1)
     = (if mentions_nodal
             (paragraph_text (nodal_paragraphs_effect bank_name baseline styles ps ! i))
        then apply_baseline_to_paragraph (ps ! (i + 1)) bank_name baseline styles
        else ps ! (i + 1))"
proof (induction bank_name baseline styles ps arbitrary: i
       rule: nodal_paragraphs_effect.induct)
  case (3 bank_name baseline styles p q ps)
  show ?case
  proof (cases i)
    case 0
    then show ?thesis by (simp add: nodal_paragraphs_effect_hd)
  next
    case (Suc j)
    with "3.prems" have "j + 1 < length ((if mentions_nodal (paragraph_text p)
        then apply_baseline_to_paragraph q bank_name baseline styles else q) # ps)" by simp
    from "3.IH" [OF this] Suc show ?thesis by simp
  qed
qed simp_all

lemma locate_rectangular:
  "\<forall>r\<in>set rs. length (row_cells r) = n \<Longrightarrow> c < n \<Longrightarrow> r < length rs \<Longrightarrow>
   locate rs i (c + r * n) = Some (i + r, c)"
proof (induction rs arbitrary: r i)
  case Nil
  then show ?case by simp
next
  case (Cons x xs)
  show ?case
  proof (cases r)
    case 0
    with Cons.prems show ?thesis by simp
  next
    case (Suc r')
    with Cons.prems have "locate xs (Suc i) (c + r' * n) = Some (Suc i + r', c)"
      by (intro Cons.IH) auto
    with Suc Cons.prems show ?thesis by simp
  qed
qed

lemma rectangular_rows:
  "rectangular t \<longleftrightarrow> (\<forall>r\<in>set (t_rows t). length (row_cells r) = length (t_grid t))"
  by (simp add: rectangular_def list_all_iff)

lemma table_cell_rectangular:
  "rectangular t \<Longrightarrow> c < length (t_grid t) \<Longrightarrow> r < length (t_rows t) \<Longrightarrow>
   table_cell t r c = Inr (r, c)"
  using locate_rectangular [of "t_rows t" "length (t_grid t)" c r 0]
  by (simp add: table_cell_def rectangular_rows)

lemma update_cell_set_row_cells:
  "update_cell t (i, j) f
     = set_row_cells t i ((row_cells (t_rows t ! i))[j := f (row_cells (t_rows t ! i) ! j)])"
  by (simp add: update_cell_def set_row_cells_def)

lemma set_row_cells_same:
  "set_row_cells t i (row_cells (t_rows t ! i)) = t"
  by (simp add: set_row_cells_def)

lemma set_row_cells_twice:
  "set_row_cells (set_row_cells t i a) i b = set_row_cells t i b"
  by (cases "i < length (t_rows t)") (simp_all add: set_row_cells_def list_update_beyond)

lemma set_row_cells_grid [simp]: "t_grid (set_row_cells t i cs) = t_grid t"
  by (simp add: set_row_cells_def)

lemma set_row_cells_length [simp]: "length (t_rows (set_row_cells t i cs)) = length (t_rows t)"
  by (simp add: set_row_cells_def)

lemma set_row_cells_nth_same:
  "i < length (t_rows t) \<Longrightarrow> row_cells (t_rows (set_row_cells t i cs) ! i) = cs"
  by (simp add: set_row_cells_def)

lemma set_row_cells_nth_other:
  "k \<noteq> i \<Longrightarrow> t_rows (set_row_cells t i cs) ! k = t_rows t ! k"
  by (simp add: set_row_cells_def)

lemma rectangular_set_row_cells:
  "rectangular t \<Longrightarrow> length cs = length (t_grid t) \<Longrightarrow> rectangular (set_row_cells t i cs)"
  by (auto simp: rectangular_rows set_row_cells_def dest!: set_update_subset_insert [THEN subsetD])

lemma nodal_cells_loop_last:
  "\<not> r + 1 < length (t_rows t) \<Longrightarrow>
   nodal_cells_loop cs r bank_name baseline styles t = Inr t"
  by (induction cs) simp_all

lemma nodal_cells_loop_step:
  assumes rect: "rectangular t" and k: "Suc k < length (t_rows t)"
    and j: "j < length (t_grid t)"
  shows "nodal_cells_loop (j # idxs) k bank_name baseline styles t
     = nodal_cells_loop idxs k bank_name baseline styles
         (set_row_cells t (Suc k)
            ((row_cells (t_rows t ! Suc k))
               [j := (if mentions_nodal (cell_text (row_cells (t_rows t ! k) ! j))
                      then nodal_cell bank_name baseline styles
                             (row_cells (t_rows t ! Suc k) ! j)
                      else row_cells (t_rows t ! Suc k) ! j)]))"
proof (cases "mentions_nodal (cell_text (row_cells (t_rows t ! k) ! j))")
  case True
  from table_cell_rectangular [OF rect j k]
  have "table_cell t (k + 1) j = Inr (Suc k, j)" by simp
  with True k show ?thesis
    by (simp add: update_cell_set_row_cells)
next
  case False
  then show ?thesis by (simp add: set_row_cells_same)
qed

lemma nodal_cells_loop_rect:
  assumes "rectangular t" and "Suc k < length (t_rows t)" and "j \<le> length (t_grid t)"
  shows "nodal_cells_loop [j..<length (t_grid t)] k bank_name baseline styles t
     = Inr (set_row_cells t (Suc k)
              (take j (row_cells (t_rows t ! Suc k))
               @ map (\<lambda>(a, b). if mentions_nodal (cell_text a)
                                then nodal_cell bank_name baseline styles b else b)
                     (zip (drop j (row_cells (t_rows t ! k)))
                          (drop j (row_cells (t_rows t ! Suc k))))))"
  using assms
proof (induction "length (t_grid t) - j" arbitrary: j t)
  case 0
  then have "j = length (t_grid t)" by simp
  moreover from "0.prems" have "length (row_cells (t_rows t ! Suc k)) = length (t_grid t)"
    by (simp add: rectangular_rows)
  ultimately show ?case by (simp add: set_row_cells_same)
next
  case (Suc d)
  let ?n = "length (t_grid t)"
  let ?ca = "row_cells (t_rows t ! k)"
  let ?cb = "row_cells (t_rows t ! Suc k)"
  let ?F = "\<lambda>(a, b). if mentions_nodal (cell_text a)
                       then nodal_cell bank_name baseline styles b else b"
  from Suc.hyps Suc.prems have j: "j < ?n" by simp
  from Suc.prems have la: "length ?ca = ?n" and lb: "length ?cb = ?n"
    by (simp_all add: rectangular_rows)
  let ?cb1 = "?cb[j := ?F (?ca ! j, ?cb ! j)]"
  let ?t1 = "set_row_cells t (Suc k) ?cb1"
  have step: "nodal_cells_loop (j # [Suc j..<?n]) k bank_name baseline styles t
        = nodal_cells_loop [Suc j..<?n] k bank_name baseline styles ?t1"
    using nodal_cells_loop_step [OF Suc.prems(1,2) j] by simp
  have r1: "rectangular ?t1"
    using Suc.prems(1) lb by (simp add: rectangular_set_row_cells)
  have k1: "Suc k < length (t_rows ?t1)" using Suc.prems(2) by simp
  have d1: "d = length (t_grid ?t1) - Suc j" using Suc.hyps(2) by simp
  have j1: "Suc j \<le> length (t_grid ?t1)" using j by simp
  have ca1: "row_cells (t_rows ?t1 ! k) = ?ca"
    by (simp add: set_row_cells_nth_other)
  have cb1: "row_cells (t_rows ?t1 ! Suc k) = ?cb1"
    using Suc.prems(2) by (simp add: set_row_cells_nth_same)
  have ih: "nodal_cells_loop [Suc j..<?n] k bank_name baseline styles ?t1
     = Inr (set_row_cells t (Suc k)
              (take (Suc j) ?cb1 @ map ?F (zip (drop (Suc j) ?ca) (drop (Suc j) ?cb1))))"
    using Suc.hyps(1) [OF d1 r1 k1 j1]
    by (simp only: ca1 cb1 set_row_cells_twice set_row_cells_grid)
  have t1: "take (Suc j) ?cb1 = take j ?cb @ [?F (?ca ! j, ?cb ! j)]"
    using j lb by (simp add: take_Suc_conv_app_nth)
  have t2: "drop (Suc j) ?cb1 = drop (Suc j) ?cb" by simp
  have t3: "drop j ?ca = ?ca ! j # drop (Suc j) ?ca"
    using j la by (simp add: Cons_nth_drop_Suc)
  have t4: "drop j ?cb = ?cb ! j # drop (Suc j) ?cb"
    using j lb by (simp add: Cons_nth_drop_Suc)
  have "[j..<?n] = j # [Suc j..<?n]" using j by (rule upt_conv_Cons)
  then show ?case
    unfolding step ih t1 t2 by (simp only: t3 t4 step ih t1 t2 zip_Cons_Cons list.map append_assoc append_Cons append_Nil)
qed

lemma nodal_rows_loop_suffix:
  "\<forall>r\<in>set (pre @ rest). length (row_cells r) = length (t_grid t) \<Longrightarrow>
   nodal_rows_loop [length pre..<length pre + length rest] bank_name baseline styles
     (t\<lparr>t_rows := pre @ rest\<rparr>)
   = Inr (t\<lparr>t_rows := pre @ nodal_rows_effect bank_name baseline styles rest\<rparr>)"
proof (induction bank_name baseline styles rest arbitrary: pre
       rule: nodal_rows_effect.induct)
  case (3 bank_name baseline styles r s rs)
  let ?s = "nodal_below bank_name baseline styles r s"
  let ?t0 = "t\<lparr>t_rows := pre @ r # s # rs\<rparr>"
  define rest_idx where
    "rest_idx = [length (pre @ [r])..<length (pre @ [r]) + length (?s # rs)]"
  have "[length pre..<length pre + length (r # s # rs)]
        = length pre # [Suc (length pre)..<length pre + length (r # s # rs)]"
    by (rule upt_conv_Cons) simp
  moreover have "length (pre @ [r]) = Suc (length pre)"
    and "length pre + length (r # s # rs) = length (pre @ [r]) + length (?s # rs)"
    by simp_all
  ultimately have idx: "[length pre..<length pre + length (r # s # rs)]
        = length pre # rest_idx"
    unfolding rest_idx_def by (simp only:)
  have rect0: "rectangular ?t0"
    using "3.prems" by (simp add: rectangular_rows)
  have lr: "length (row_cells r) = length (t_grid t)"
    and ls: "length (row_cells s) = length (t_grid t)"
    using "3.prems" by simp_all
  have k: "Suc (length pre) < length (t_rows ?t0)" by simp
  have rk: "t_rows ?t0 ! length pre = r" by simp
  have rk1: "t_rows ?t0 ! Suc (length pre) = s" by (simp add: nth_append)
  have inner: "nodal_cells_loop [0..<length (row_cells (t_rows ?t0 ! length pre))] (length pre)
          bank_name baseline styles ?t0
        = Inr (t\<lparr>t_rows := (pre @ [r]) @ ?s # rs\<rparr>)"
  proof -
    have "nodal_cells_loop [0..<length (t_grid ?t0)] (length pre)
          bank_name baseline styles ?t0
        = Inr (set_row_cells ?t0 (Suc (length pre))
              (take 0 (row_cells (t_rows ?t0 ! Suc (length pre)))
               @ map (\<lambda>(a, b). if mentions_nodal (cell_text a)
                                then nodal_cell bank_name baseline styles b else b)
                     (zip (drop 0 (row_cells (t_rows ?t0 ! length pre)))
                          (drop 0 (row_cells (t_rows ?t0 ! Suc (length pre)))))))"
      by (rule nodal_cells_loop_rect [OF rect0 k]) simp
    moreover have "set_row_cells ?t0 (Suc (length pre))
              (map (\<lambda>(a, b). if mentions_nodal (cell_text a)
                                then nodal_cell bank_name baseline styles b else b)
                     (zip (row_cells r) (row_cells s)))
          = t\<lparr>t_rows := (pre @ [r]) @ ?s # rs\<rparr>"
      by (simp add: set_row_cells_def nodal_below_def list_update_append nth_append)
    ultimately show ?thesis
      by (simp only: rk rk1 take_0 drop_0 append_Nil lr) (simp add: lr)
  qed
  have rect1: "\<forall>x\<in>set ((pre @ [r]) @ ?s # rs). length (row_cells x) = length (t_grid t)"
    using "3.prems" by (auto simp: nodal_below_def)
  have ih: "nodal_rows_loop rest_idx bank_name baseline styles
          (t\<lparr>t_rows := (pre @ [r]) @ ?s # rs\<rparr>)
        = Inr (t\<lparr>t_rows := (pre @ [r]) @ nodal_rows_effect bank_name baseline styles (?s # rs)\<rparr>)"
    unfolding rest_idx_def by (rule "3.IH" [OF rect1])
  have "nodal_rows_loop (length pre # rest_idx) bank_name baseline styles ?t0
        = nodal_rows_loop rest_idx bank_name baseline styles
            (t\<lparr>t_rows := (pre @ [r]) @ ?s # rs\<rparr>)"
    by (simp only: nodal_rows_loop.simps inner sum.case)
  with ih show ?case unfolding idx by simp
next
  case (1 bank_name baseline styles)
  then show ?case by simp
next
  case (2 bank_name baseline styles v)
  have "nodal_cells_loop cs (length pre) bank_name baseline styles (t\<lparr>t_rows := pre @ [v]\<rparr>)
        = Inr (t\<lparr>t_rows := pre @ [v]\<rparr>)" for cs
    by (rule nodal_cells_loop_last) simp
  then show ?case by simp
qed

lemma nodal_table_effect:
  assumes "rectangular t"
  shows "nodal_table bank_name baseline styles t
     = Inr (t\<lparr>t_rows := nodal_rows_effect bank_name baseline styles (t_rows t)\<rparr>)"
proof -
  from assms have "\<forall>r\<in>set ([] @ t_rows t). length (row_cells r) = length (t_grid t)"
    by (simp add: rectangular_rows)
  from nodal_rows_loop_suffix [OF this, of bank_name baseline styles]
  show ?thesis by (simp add: nodal_table_def)
qed

lemma nodal_tables_effect:
  "list_all rectangular ts \<Longrightarrow>
   nodal_tables ts bank_name baseline styles
     = Inr (map (\<lambda>t. t\<lparr>t_rows := nodal_rows_effect bank_name baseline styles (t_rows t)\<rparr>) ts)"
  by (induction ts) (simp_all add: nodal_table_effect)

lemma nodal_rows_effect_length:
  "length (nodal_rows_effect bank_name baseline styles rs) = length rs"
  by (induction bank_name baseline styles rs rule: nodal_rows_effect.induct) simp_all

lemma nodal_rows_effect_hd:
  "nodal_rows_effect bank_name baseline styles (r # rs) ! 0 = r"
  by (cases rs) simp_all

lemma nodal_rows_effect_nth:
  "i + 1 < length rs \<Longrightarrow>
   nodal_rows_effect bank_name baseline styles rs ! (i + 1)
     = nodal_below bank_name baseline styles
         (nodal_rows_effect bank_name baseline styles rs ! i) (rs ! (i + 1))"
proof (induction bank_name baseline styles rs arbitrary: i rule: nodal_rows_effect.induct)
  case (3 bank_name baseline styles r s rs)
  show ?case
  proof (cases i)
    case 0
    then show ?thesis by (simp add: nodal_rows_effect_hd)
  next
    case (Suc j)
    with "3.prems" have "j + 1 < length (nodal_below bank_name baseline styles r s # rs)"
      by simp
    from "3.IH" [OF this] Suc show ?thesis by simp
  qed
qed simp_all

lemma nodal_rows_effect_cells_length:
  "\<forall>r\<in>set rs. length (row_cells r) = n \<Longrightarrow>
   \<forall>r\<in>set (nodal_rows_effect bank_name baseline styles rs). length (row_cells r) = n"
  by (induction bank_name baseline styles rs rule: nodal_rows_effect.induct)
     (auto simp: nodal_below_def)

lemma nodal_below_cell:
  "c < length (row_cells a) \<Longrightarrow> c < length (row_cells b) \<Longrightarrow>
   row_cells (nodal_below bank_name baseline styles a b) ! c
     = (if mentions_nodal (cell_text (row_cells a ! c))
        then nodal_cell bank_name baseline styles (row_cells b ! c)
        else row_cells b ! c)"
  by (simp add: nodal_below_def)

lemma nodal_rows_effect_cell:
  assumes rect: "\<forall>r\<in>set rs. length (row_cells r) = n"
    and r: "r + 1 < length rs" and c: "c < n"
  shows "row_cells (nodal_rows_effect bank_name baseline styles rs ! (r + 1)) ! c
     = (if mentions_nodal
             (cell_text (row_cells (nodal_rows_effect bank_name baseline styles rs ! r) ! c))
        then nodal_cell bank_name baseline styles (row_cells (rs ! (r + 1)) ! c)
        else row_cells (rs ! (r + 1)) ! c)"
proof -
  let ?e = "nodal_rows_effect bank_name baseline styles rs"
  from r have "?e ! r \<in> set ?e" by (simp add: nodal_rows_effect_length)
  with nodal_rows_effect_cells_length [OF rect, of bank_name baseline styles]
  have la: "length (row_cells (?e ! r)) = n" by blast
  from r have "rs ! (r + 1) \<in> set rs" by simp
  with rect have lb: "length (row_cells (rs ! (r + 1))) = n" by blast
  show ?thesis
    unfolding nodal_rows_effect_nth [OF r]
    using c la lb by (simp add: nodal_below_cell)
qed

lemma paragraph_text_runs_update:
  "(\<And>r. r_text (f r) = r_text r) \<Longrightarrow>
   paragraph_text (p\<lparr>p_runs := map f (p_runs q)\<rparr>) = paragraph_text q"
  by (simp add: paragraph_text_def comp_def)

lemma apply_spacing_runs [simp]: "p_runs (apply_spacing sp p) = p_runs p"
  by (cases sp) (simp add: apply_spacing_def Let_def)

lemma apply_indent_runs [simp]: "p_runs (apply_indent ind p) = p_runs p"
  by (cases ind) (simp add: apply_indent_def Let_def)

lemma apply_baseline_runs:
  "p_runs (apply_baseline_to_paragraph p text baseline styles)
     = [\<lparr>r_text = text, r_font_name = Some (nb_font_name baseline),
         r_font_size = (if nb_font_size baseline \<noteq> 0 then Some (Pt (nb_font_size baseline))
                        else None),
         r_bold = nb_bold baseline, r_color = None\<rparr>]"
  by (cases "nb_bold baseline")
     (auto simp: apply_baseline_to_paragraph_def Let_def set_paragraph_text_def new_run_def
       split: option.splits)

lemma apply_baseline_text:
  "paragraph_text (apply_baseline_to_paragraph p text baseline styles) = text"
  by (simp add: paragraph_text_def apply_baseline_runs)

lemma nodal_paragraphs_loop_append:
  "nodal_paragraphs_loop (xs @ ys) bank_name baseline styles ps
     = nodal_paragraphs_loop ys bank_name baseline styles
         (nodal_paragraphs_loop xs bank_name baseline styles ps)"
  by (induction xs arbitrary: ps) simp_all

lemma nodal_paragraphs_loop_frame:
  "\<forall>j\<in>set idxs. i \<le> j \<Longrightarrow>
   nodal_paragraphs_loop idxs bank_name baseline styles ps ! i = ps ! i"
  by (induction idxs arbitrary: ps) simp_all

lemma nodal_paragraphs_read:
  assumes "i < length ps"
  shows "nodal_paragraphs_loop [0..<i] bank_name baseline styles ps ! i
     = nodal_paragraphs bank_name baseline styles ps ! i"
proof -
  from assms have "[0..<length ps] = [0..<i] @ [i..<length ps]"
    using upt_add_eq_append [of 0 i "length ps - i"] by simp
  then have "nodal_paragraphs bank_name baseline styles ps
      = nodal_paragraphs_loop [i..<length ps] bank_name baseline styles
          (nodal_paragraphs_loop [0..<i] bank_name baseline styles ps)"
    by (simp add: nodal_paragraphs_def nodal_paragraphs_loop_append)
  then show ?thesis by (simp add: nodal_paragraphs_loop_frame)
qed

lemma nodal_rows_loop_append:
  "nodal_rows_loop (xs @ ys) bank_name baseline styles t
     = (case nodal_rows_loop xs bank_name baseline styles t of
          Inl e \<Rightarrow> Inl e
        | Inr t1 \<Rightarrow> nodal_rows_loop ys bank_name baseline styles t1)"
  by (induction xs arbitrary: t) (simp_all split: sum.splits)

lemma nodal_cells_loop_outcome:
  assumes "rectangular t" and "k < length (t_rows t)" and "\<forall>c\<in>set cs. c < length (t_grid t)"
  shows "\<exists>t1. nodal_cells_loop cs k bank_name baseline styles t = Inr t1
           \<and> rectangular t1 \<and> t_grid t1 = t_grid t
           \<and> length (t_rows t1) = length (t_rows t)
           \<and> (\<forall>i\<le>k. t_rows t1 ! i = t_rows t ! i)"
proof (cases "Suc k < length (t_rows t)")
  case False
  with assms show ?thesis by (simp add: nodal_cells_loop_last)
next
  case True
  from assms(1) True assms(3) show ?thesis
  proof (induction cs arbitrary: t)
    case Nil
    then show ?case by simp
  next
    case (Cons c cs)
    let ?cb = "(row_cells (t_rows t ! Suc k))
               [c := (if mentions_nodal (cell_text (row_cells (t_rows t ! k) ! c))
                      then nodal_cell bank_name baseline styles
                             (row_cells (t_rows t ! Suc k) ! c)
                      else row_cells (t_rows t ! Suc k) ! c)]"
    let ?t1 = "set_row_cells t (Suc k) ?cb"
    from Cons.prems have c: "c < length (t_grid t)" by simp
    from Cons.prems have "length (row_cells (t_rows t ! Suc k)) = length (t_grid t)"
      by (simp add: rectangular_rows)
    then have "length ?cb = length (t_grid t)" by simp
    with Cons.prems(1) have r1: "rectangular ?t1" by (rule rectangular_set_row_cells)
    have k1: "Suc k < length (t_rows ?t1)" using Cons.prems(2) by simp
    have c1: "\<forall>c\<in>set cs. c < length (t_grid ?t1)" using Cons.prems(3) by simp
    from Cons.IH [OF r1 k1 c1] obtain t2 where
      t2: "nodal_cells_loop cs k bank_name baseline styles ?t1 = Inr t2"
        "rectangular t2" "t_grid t2 = t_grid ?t1" "length (t_rows t2) = length (t_rows ?t1)"
        "\<forall>i\<le>k. t_rows t2 ! i = t_rows ?t1 ! i"
      by blast
    from t2(5) have "\<forall>i\<le>k. t_rows t2 ! i = t_rows t ! i"
      by (simp add: set_row_cells_nth_other)
    with t2(1-4) show ?case
      unfolding nodal_cells_loop_step [OF Cons.prems(1,2) c] by simp
  qed
qed

lemma nodal_rows_loop_outcome:
  assumes "rectangular t" and "\<forall>k\<in>set idxs. k < length (t_rows t)"
  shows "\<exists>t1. nodal_rows_loop idxs bank_name baseline styles t = Inr t1
           \<and> rectangular t1 \<and> t_grid t1 = t_grid t
           \<and> length (t_rows t1) = length (t_rows t)
           \<and> (\<forall>i. (\<forall>k\<in>set idxs. i \<le> k) \<longrightarrow> t_rows t1 ! i = t_rows t ! i)"
  using assms
proof (induction idxs arbitrary: t)
  case Nil
  then show ?case by simp
next
  case (Cons k idxs)
  from Cons.prems have k: "k < length (t_rows t)" by simp
  with Cons.prems(1) have "length (row_cells (t_rows t ! k)) = length (t_grid t)"
    by (simp add: rectangular_rows)
  then have cols: "\<forall>c\<in>set [0..<length (row_cells (t_rows t ! k))]. c < length (t_grid t)"
    by simp
  from nodal_cells_loop_outcome [OF Cons.prems(1) k cols, of bank_name baseline styles]
  obtain t1 where
    t1: "nodal_cells_loop [0..<length (row_cells (t_rows t ! k))] k bank_name baseline styles t
           = Inr t1"
      "rectangular t1" "t_grid t1 = t_grid t" "length (t_rows t1) = length (t_rows t)"
      "\<forall>i\<le>k. t_rows t1 ! i = t_rows t ! i"
    by blast
  from Cons.prems(2) t1(4) have "\<forall>k\<in>set idxs. k < length (t_rows t1)" by simp
  from Cons.IH [OF t1(2) this] obtain t2 where
    t2: "nodal_rows_loop idxs bank_name baseline styles t1 = Inr t2"
      "rectangular t2" "t_grid t2 = t_grid t1" "length (t_rows t2) = length (t_rows t1)"
      "\<forall>i. (\<forall>k\<in>set idxs. i \<le> k) \<longrightarrow> t_rows t2 ! i = t_rows t1 ! i"
    by blast
  have "\<forall>i. (\<forall>j\<in>set (k # idxs). i \<le> j) \<longrightarrow> t_rows t2 ! i = t_rows t ! i"
    using t1(5) t2(5) by simp
  with t1 t2 show ?case by simp
qed

lemma nodal_table_read:
  assumes rect: "rectangular t" and r: "r < length (t_rows t)" and c: "c < length (t_grid t)"
  shows "\<exists>s s1. nodal_rows_loop [0..<r] bank_name baseline styles t = Inr s
           \<and> nodal_cells_loop [0..<c] r bank_name baseline styles s = Inr s1
           \<and> row_cells (t_rows s1 ! r) ! c
               = row_cells (nodal_rows_effect bank_name baseline styles (t_rows t) ! r) ! c"
proof -
  have "\<forall>k\<in>set [0..<r]. k < length (t_rows t)" using r by simp
  from nodal_rows_loop_outcome [OF rect this, of bank_name baseline styles]
  obtain s where s: "nodal_rows_loop [0..<r] bank_name baseline styles t = Inr s"
    "rectangular s" "t_grid s = t_grid t" "length (t_rows s) = length (t_rows t)"
    by blast
  have rs: "r < length (t_rows s)" using r s(4) by simp
  have "\<forall>c\<in>set [0..<c]. c < length (t_grid s)" using c s(3) by simp
  from nodal_cells_loop_outcome [OF s(2) rs this, of bank_name baseline styles]
  obtain s1 where s1: "nodal_cells_loop [0..<c] r bank_name baseline styles s = Inr s1"
    "\<forall>i\<le>r. t_rows s1 ! i = t_rows s ! i"
    by blast
  have "\<forall>k\<in>set [r..<length (t_rows t)]. k < length (t_rows s)" using s(4) by simp
  from nodal_rows_loop_outcome [OF s(2) this, of bank_name baseline styles]
  obtain f where f: "nodal_rows_loop [r..<length (t_rows t)] bank_name baseline styles s = Inr f"
    "\<forall>i. (\<forall>k\<in>set [r..<length (t_rows t)]. i \<le> k) \<longrightarrow> t_rows f ! i = t_rows s ! i"
    by blast
  from r have "[0..<length (t_rows t)] = [0..<r] @ [r..<length (t_rows t)]"
    using upt_add_eq_append [of 0 r "length (t_rows t) - r"] by simp
  then have "nodal_table bank_name baseline styles t = Inr f"
    by (simp add: nodal_table_def nodal_rows_loop_append s(1) f(1))
  with nodal_table_effect [OF rect, of bank_name baseline styles]
  have "t_rows f = nodal_rows_effect bank_name baseline styles (t_rows t)" by simp
  moreover from f(2) have "t_rows f ! r = t_rows s ! r" by simp
  moreover from s1(2) have "t_rows s1 ! r = t_rows s ! r" by simp
  ultimately show ?thesis using s(1) s1(1) by simp
qed

lemma apply_spacing_fields:
  "p_space_before (apply_spacing sp p)
     = (case fst sp of None \<Rightarrow> p_space_before p | Some x \<Rightarrow> Some x)"
  "p_space_after (apply_spacing sp p)
     = (case fst (snd sp) of None \<Rightarrow> p_space_after p | Some x \<Rightarrow> Some x)"
  "p_line_spacing (apply_spacing sp p)
     = (case snd (snd sp) of None \<Rightarrow> p_line_spacing p | Some x \<Rightarrow> Some x)"
  "p_style (apply_spacing sp p) = p_style p"
  "p_alignment (apply_spacing sp p) = p_alignment p"
  "p_left_indent (apply_spacing sp p) = p_left_indent p"
  "p_right_indent (apply_spacing sp p) = p_right_indent p"
  "p_first_line_indent (apply_spacing sp p) = p_first_line_indent p"
  by (cases sp; cases "fst sp"; cases "fst (snd sp)"; cases "snd (snd sp)";
      simp add: apply_spacing_def Let_def)+

lemma apply_indent_fields:
  "p_left_indent (apply_indent ind p)
     = (case fst ind of None \<Rightarrow> p_left_indent p | Some x \<Rightarrow> Some x)"
  "p_right_indent (apply_indent ind p)
     = (case fst (snd ind) of None \<Rightarrow> p_right_indent p | Some x \<Rightarrow> Some x)"
  "p_first_line_indent (apply_indent ind p)
     = (case snd (snd ind) of None \<Rightarrow> p_first_line_indent p | Some x \<Rightarrow> Some x)"
  "p_style (apply_indent ind p) = p_style p"
  "p_alignment (apply_indent ind p) = p_alignment p"
  "p_space_before (apply_indent ind p) = p_space_before p"
  "p_space_after (apply_indent ind p) = p_space_after p"
  "p_line_spacing (apply_indent ind p) = p_line_spacing p"
  by (cases ind; cases "fst ind"; cases "fst (snd ind)"; cases "snd (snd ind)";
      simp add: apply_indent_def Let_def)+

lemmas apply_baseline_unfold =
  apply_baseline_to_paragraph_def Let_def set_paragraph_text_def truthy_str_def
  apply_spacing_fields apply_indent_fields

lemma apply_baseline_style:
  "p_style (apply_baseline_to_paragraph p text baseline styles)
     = (case nb_style_name baseline of
          None \<Rightarrow> p_style p
        | Some n \<Rightarrow> if n \<noteq> [] \<and> n \<in> set styles then Some n else p_style p)"
  by (simp add: apply_baseline_unfold split: option.splits)

lemma apply_baseline_alignment:
  "p_alignment (apply_baseline_to_paragraph p text baseline styles)
     = (case nb_alignment baseline of None \<Rightarrow> p_alignment p | Some a \<Rightarrow> Some a)"
  by (simp add: apply_baseline_unfold split: option.splits)

lemma apply_baseline_spacing:
  "p_space_before (apply_baseline_to_paragraph p text baseline styles)
     = (case nb_spacing baseline of
          Some (Some sb, sa, ls) \<Rightarrow> Some sb | _ \<Rightarrow> p_space_before p)"
  "p_space_after (apply_baseline_to_paragraph p text baseline styles)
     = (case nb_spacing baseline of
          Some (sb, Some sa, ls) \<Rightarrow> Some sa | _ \<Rightarrow> p_space_after p)"
  "p_line_spacing (apply_baseline_to_paragraph p text baseline styles)
     = (case nb_spacing baseline of
          Some (sb, sa, Some ls) \<Rightarrow> Some ls | _ \<Rightarrow> p_line_spacing p)"
  by (simp_all add: apply_baseline_unfold split: option.splits prod.splits)

lemma apply_baseline_indent:
  "p_left_indent (apply_baseline_to_paragraph p text baseline styles)
     = (case nb_indent baseline of
          Some (Some li, ri, fi) \<Rightarrow> Some li | _ \<Rightarrow> p_left_indent p)"
  "p_right_indent (apply_baseline_to_paragraph p text baseline styles)
     = (case nb_indent baseline of
          Some (li, Some ri, fi) \<Rightarrow> Some ri | _ \<Rightarrow> p_right_indent p)"
  "p_first_line_indent (apply_baseline_to_paragraph p text baseline styles)
     = (case nb_indent baseline of
          Some (li, ri, Some fi) \<Rightarrow> Some fi | _ \<Rightarrow> p_first_line_indent p)"
  by (simp_all add: apply_baseline_unfold split: option.splits prod.splits)

lemma apply_baseline_closed_form:
  "apply_baseline_to_paragraph p text baseline styles =
     \<lparr>p_runs = [\<lparr>r_text = text, r_font_name = Some (nb_font_name baseline),
                  r_font_size = (if nb_font_size baseline \<noteq> 0
                                 then Some (Pt (nb_font_size baseline)) else None),
                  r_bold = nb_bold baseline, r_color = None\<rparr>],
      p_style = (case nb_style_name baseline of
                   None \<Rightarrow> p_style p
                 | Some n \<Rightarrow> if n \<noteq> [] \<and> n \<in> set styles then Some n else p_style p),
      p_alignment = (case nb_alignment baseline of
                       None \<Rightarrow> p_alignment p | Some a \<Rightarrow> Some a),
      p_space_before = (case nb_spacing baseline of
                          Some (Some sb, sa, ls) \<Rightarrow> Some sb | _ \<Rightarrow> p_space_before p),
      p_space_after = (case nb_spacing baseline of
                         Some (sb, Some sa, ls) \<Rightarrow> Some sa | _ \<Rightarrow> p_space_after p),
      p_line_spacing = (case nb_spacing baseline of
                          Some (sb, sa, Some ls) \<Rightarrow> Some ls | _ \<Rightarrow> p_line_spacing p),
      p_left_indent = (case nb_indent baseline of
                         Some (Some li, ri, fi) \<Rightarrow> Some li | _ \<Rightarrow> p_left_indent p),
      p_right_indent = (case nb_indent baseline of
                          Some (li, Some ri, fi) \<Rightarrow> Some ri | _ \<Rightarrow> p_right_indent p),
      p_first_line_indent = (case nb_indent baseline of
                               Some (li, ri, Some fi) \<Rightarrow> Some fi | _ \<Rightarrow> p_first_line_indent p)\<rparr>"
  by (rule para.equality)
     (simp_all only: para.select_convs apply_baseline_runs apply_baseline_style
        apply_baseline_alignment apply_baseline_spacing apply_baseline_indent,
      simp add: apply_baseline_to_paragraph_def Let_def)

lemma extract_nodal_baseline_captured:
  "nodal_next (d_paragraphs doc) = Some np \<Longrightarrow>
   nb_style_name (extract_nodal_baseline doc fallback_font fallback_size) = p_style np
   \<and> nb_alignment (extract_nodal_baseline doc fallback_font fallback_size) = p_alignment np
   \<and> nb_spacing (extract_nodal_baseline doc fallback_font fallback_size)
       = Some (p_space_before np, p_space_after np, p_line_spacing np)
   \<and> nb_indent (extract_nodal_baseline doc fallback_font fallback_size)
       = Some (p_left_indent np, p_right_indent np, p_first_line_indent np)"
  by (simp add: extract_nodal_baseline_def split: prod.splits)

lemma nodal_steps_effect:
  assumes "list_all rectangular (d_tables doc)"
  shows "nodal_steps doc bank_name tmpl_font tmpl_size
     = Inr (doc\<lparr>d_paragraphs :=
                  nodal_paragraphs_effect bank_name
                    (extract_nodal_baseline doc tmpl_font tmpl_size) (d_styles doc)
                    (d_paragraphs doc),
                d_tables :=
                  map (\<lambda>t. t\<lparr>t_rows :=
                         nodal_rows_effect bank_name
                           (extract_nodal_baseline doc tmpl_font tmpl_size) (d_styles doc)
                           (t_rows t)\<rparr>)
                      (d_tables doc)\<rparr>)"
  using assms
  by (simp add: nodal_steps_def Let_def nodal_tables_effect nodal_paragraphs_effect_eq)

lemma nodal_next_first:
  assumes "i < length ps" and "mentions_nodal (paragraph_text (ps ! i))"
    and "\<forall>j<i. \<not> mentions_nodal (paragraph_text (ps ! j))"
  shows "nodal_next ps = (if i + 1 < length ps then Some (ps ! (i + 1)) else None)"
  using assms
proof (induction ps arbitrary: i)
  case Nil
  then show ?case by simp
next
  case (Cons p ps)
  show ?case
  proof (cases i)
    case 0
    with Cons.prems(2) show ?thesis
      by (cases ps) (simp_all add: mentions_nodal_def)
  next
    case (Suc k)
    with Cons.prems(3) have np: "\<not> mentions_nodal (paragraph_text p)" by auto
    from Suc Cons.prems have "k < length ps" "mentions_nodal (paragraph_text (ps ! k))"
      "\<forall>j<k. \<not> mentions_nodal (paragraph_text (ps ! j))"
      by auto
    from Cons.IH [OF this] np Suc show ?thesis
      by (simp add: mentions_nodal_def)
  qed
qed

lemma nodal_next_none:
  "(\<forall>j<length ps. \<not> mentions_nodal (paragraph_text (ps ! j))) \<Longrightarrow> nodal_next ps = None"
proof (induction ps)
  case Nil
  then show ?case by simp
next
  case (Cons p ps)
  from Cons.prems have "\<not> mentions_nodal (paragraph_text p)" by auto
  moreover from Cons.prems have "\<forall>j<length ps. \<not> mentions_nodal (paragraph_text (ps ! j))"
    by auto
  ultimately show ?case using Cons.IH by (simp add: mentions_nodal_def)
qed

lemma nodal_runs_font_name:
  "or_str (fst (nodal_runs rs fn fs b)) fb =
     (if truthy_str fn then or_str fn fb
      else case find (\<lambda>r. truthy_str (r_font_name r)) rs of
             None \<Rightarrow> fb | Some r \<Rightarrow> or_str (r_font_name r) fb)"
proof (induction rs arbitrary: fn fs b)
  case Nil
  then show ?case by (auto simp: truthy_str_def or_str_def split: option.splits)
next
  case (Cons r rs)
  show ?case
    by (simp add: Cons.IH)
qed

lemma truthy_points:
  "truthy_nat (map_option (\<lambda>emu. emu div 12700) x) \<Longrightarrow> truthy_nat x"
  by (cases x) (auto simp: truthy_nat_def)

lemma nodal_runs_font_size:
  "or_nat (fst (snd (nodal_runs rs fn fs b))) fb =
     (if truthy_nat fs then or_nat fs fb
      else case find (\<lambda>r. truthy_nat (map_option (\<lambda>emu. emu div 12700) (r_font_size r))) rs of
             None \<Rightarrow> fb
           | Some r \<Rightarrow> or_nat (map_option (\<lambda>emu. emu div 12700) (r_font_size r)) fb)"
proof (induction rs arbitrary: fn fs b)
  case Nil
  then show ?case by (auto simp: truthy_nat_def or_nat_def split: option.splits)
next
  case (Cons r rs)
  show ?case
    using truthy_points [of "r_font_size r"] by (simp add: Cons.IH)
qed

lemma nodal_runs_bold:
  "snd (snd (nodal_runs rs fn fs b)) =
     (if b \<noteq> None then b
      else case find (\<lambda>r. r_bold r \<noteq> None) rs of None \<Rightarrow> None | Some r \<Rightarrow> r_bold r)"
proof (induction rs arbitrary: fn fs b)
  case Nil
  then show ?case by auto
next
  case (Cons r rs)
  show ?case by (simp add: Cons.IH) blast
qed

lemma extract_nodal_baseline_fonts:
  assumes "nodal_next (d_paragraphs doc) = Some np"
  shows "nb_font_name (extract_nodal_baseline doc fallback_font fallback_size)
       = (case find (\<lambda>r. truthy_str (r_font_name r)) (p_runs np) of
            None \<Rightarrow> fallback_font | Some r \<Rightarrow> or_str (r_font_name r) fallback_font)"
    and "nb_font_size (extract_nodal_baseline doc fallback_font fallback_size)
       = (case find (\<lambda>r. truthy_nat (map_option (\<lambda>emu. emu div 12700) (r_font_size r)))
                 (p_runs np) of
            None \<Rightarrow> fallback_size
          | Some r \<Rightarrow> or_nat (map_option (\<lambda>emu. emu div 12700) (r_font_size r)) fallback_size)"
    and "nb_bold (extract_nodal_baseline doc fallback_font fallback_size)
       = (case find (\<lambda>r. r_bold r \<noteq> None) (p_runs np) of
            None \<Rightarrow> None | Some r \<Rightarrow> r_bold r)"
proof -
  obtain a b c where r: "nodal_runs (p_runs np) None None None = (a, b, c)"
    by (cases "nodal_runs (p_runs np) None None None") auto
  from nodal_runs_font_name [of "p_runs np" None None None fallback_font] r
  have "or_str a fallback_font = (case find (\<lambda>r. truthy_str (r_font_name r)) (p_runs np) of
            None \<Rightarrow> fallback_font | Some r \<Rightarrow> or_str (r_font_name r) fallback_font)"
    by (simp add: truthy_str_def)
  with assms r show "nb_font_name (extract_nodal_baseline doc fallback_font fallback_size)
       = (case find (\<lambda>r. truthy_str (r_font_name r)) (p_runs np) of
            None \<Rightarrow> fallback_font | Some r \<Rightarrow> or_str (r_font_name r) fallback_font)"
    by (simp add: extract_nodal_baseline_def)
  from nodal_runs_font_size [of "p_runs np" None None None fallback_size] r
  have "or_nat b fallback_size
       = (case find (\<lambda>r. truthy_nat (map_option (\<lambda>emu. emu div 12700) (r_font_size r)))
                 (p_runs np) of
            None \<Rightarrow> fallback_size
          | Some r \<Rightarrow> or_nat (map_option (\<lambda>emu. emu div 12700) (r_font_size r)) fallback_size)"
    by (simp add: truthy_nat_def)
  with assms r show "nb_font_size (extract_nodal_baseline doc fallback_font fallback_size)
       = (case find (\<lambda>r. truthy_nat (map_option (\<lambda>emu. emu div 12700) (r_font_size r)))
                 (p_runs np) of
            None \<Rightarrow> fallback_size
          | Some r \<Rightarrow> or_nat (map_option (\<lambda>emu. emu div 12700) (r_font_size r)) fallback_size)"
    by (simp add: extract_nodal_baseline_def)
  from nodal_runs_bold [of "p_runs np" None None None] r
  have "c = (case find (\<lambda>r. r_bold r \<noteq> None) (p_runs np) of
            None \<Rightarrow> None | Some r \<Rightarrow> r_bold r)"
    by simp
  with assms r show "nb_bold (extract_nodal_baseline doc fallback_font fallback_size)
       = (case find (\<lambda>r. r_bold r \<noteq> None) (p_runs np) of
            None \<Rightarrow> None | Some r \<Rightarrow> r_bold r)"
    by (simp add: extract_nodal_baseline_def)
qed

lemma extract_nodal_baseline_default:
  "nodal_next (d_paragraphs doc) = None \<Longrightarrow>
   extract_nodal_baseline doc fallback_font fallback_size
     = \<lparr>nb_style_name = None, nb_alignment = None, nb_spacing = None, nb_indent = None,
        nb_font_name = fallback_font, nb_font_size = fallback_size, nb_bold = None\<rparr>"
  by (simp add: extract_nodal_baseline_def)

text \<open>
  Claim C6, with the reading of the labels made precise. Let the document have reached
  the nodal officer steps of \<^verbatim>\<open>update_word_template\<close>, with rectangular tables. Then the
  steps succeed, and in the document they produce: for every body paragraph that has a
  following paragraph and whose text mentions the nodal officer (in any case of letters)
  when the loop reads it, which is its text in the result, the following paragraph is the
  original one after \<^verbatim>\<open>_apply_baseline_to_paragraph\<close> with the bank name and the nodal
  baseline, and every other paragraph is unchanged; and for every table cell that has a
  cell below it in the same column and whose text mentions the nodal officer when the loop
  reads it, which is its text in the result, every paragraph of the cell below has
  received the same treatment, and every other cell is unchanged. The treatment leaves a
  paragraph whose text is the bank name, in one run with the font name, size and bold flag
  of the baseline, and with the style name, alignment, spacing and indents of the baseline
  where the baseline has them. The baseline is taken before the loops from the paragraph
  after the first paragraph that mentions the nodal officer: its style name, alignment,
  spacing and indents, the font name of its first run that has a non-empty one, the size
  in whole points of its first run whose size is at least one point, and the bold flag of
  its first run that has one; the font name and the size of the template replace a name or
  a size that is not found. When no paragraph mentions the nodal officer, or the first
  that does is the last paragraph, the baseline holds the font name and the size of the
  template and nothing else.
\<close>

theorem nodal_officer_successors:
  assumes before: "before_nodal template bank_name accounts placeholder tone font_name font_size
                     = Inr (doc, tmpl_font, tmpl_size)"
    and rect: "list_all rectangular (d_tables doc)"
    and nb: "nb = extract_nodal_baseline doc tmpl_font tmpl_size"
  shows "\<exists>doc1. update_body template bank_name accounts placeholder tone font_name font_size
               = Inr doc1
     \<and> length (d_paragraphs doc1) = length (d_paragraphs doc)
     \<and> (\<forall>i. i + 1 < length (d_paragraphs doc) \<longrightarrow>
          nodal_paragraphs_loop [0..<i] bank_name nb (d_styles doc) (d_paragraphs doc) ! i
            = d_paragraphs doc1 ! i
          \<and> d_paragraphs doc1 ! (i + 1)
            = (if mentions_nodal (paragraph_text (d_paragraphs doc1 ! i))
               then apply_baseline_to_paragraph (d_paragraphs doc ! (i + 1)) bank_name nb
                      (d_styles doc)
               else d_paragraphs doc ! (i + 1)))
     \<and> length (d_tables doc1) = length (d_tables doc)
     \<and> (\<forall>k r c. k < length (d_tables doc) \<and> r + 1 < length (t_rows (d_tables doc ! k))
                 \<and> c < length (t_grid (d_tables doc ! k)) \<longrightarrow>
          (\<exists>s s1. nodal_rows_loop [0..<r] bank_name nb (d_styles doc) (d_tables doc ! k) = Inr s
                 \<and> nodal_cells_loop [0..<c] r bank_name nb (d_styles doc) s = Inr s1
                 \<and> row_cells (t_rows s1 ! r) ! c
                     = row_cells (t_rows (d_tables doc1 ! k) ! r) ! c)
          \<and> row_cells (t_rows (d_tables doc1 ! k) ! (r + 1)) ! c
            = (if mentions_nodal (cell_text (row_cells (t_rows (d_tables doc1 ! k) ! r) ! c))
               then nodal_cell bank_name nb (d_styles doc)
                      (row_cells (t_rows (d_tables doc ! k) ! (r + 1)) ! c)
               else row_cells (t_rows (d_tables doc ! k) ! (r + 1)) ! c))
     \<and> (\<forall>cl. c_paragraphs (nodal_cell bank_name nb (d_styles doc) cl)
            = map (\<lambda>p. apply_baseline_to_paragraph p bank_name nb (d_styles doc))
                (c_paragraphs cl))
     \<and> (\<forall>p. paragraph_text (apply_baseline_to_paragraph p bank_name nb (d_styles doc))
              = bank_name
            \<and> apply_baseline_to_paragraph p bank_name nb (d_styles doc) =
               \<lparr>p_runs = [\<lparr>r_text = bank_name, r_font_name = Some (nb_font_name nb),
                  r_font_size = (if nb_font_size nb \<noteq> 0 then Some (Pt (nb_font_size nb))
                                 else None),
                  r_bold = nb_bold nb, r_color = None\<rparr>],
                p_style = (case nb_style_name nb of
                   None \<Rightarrow> p_style p
                 | Some n \<Rightarrow> if n \<noteq> [] \<and> n \<in> set (d_styles doc) then Some n else p_style p),
                p_alignment = (case nb_alignment nb of
                       None \<Rightarrow> p_alignment p | Some a \<Rightarrow> Some a),
                p_space_before = (case nb_spacing nb of
                          Some (Some sb, sa, ls) \<Rightarrow> Some sb | _ \<Rightarrow> p_space_before p),
                p_space_after = (case nb_spacing nb of
                         Some (sb, Some sa, ls) \<Rightarrow> Some sa | _ \<Rightarrow> p_space_after p),
                p_line_spacing = (case nb_spacing nb of
                          Some (sb, sa, Some ls) \<Rightarrow> Some ls | _ \<Rightarrow> p_line_spacing p),
                p_left_indent = (case nb_indent nb of
                         Some (Some li, ri, fi) \<Rightarrow> Some li | _ \<Rightarrow> p_left_indent p),
                p_right_indent = (case nb_indent nb of
                          Some (li, Some ri, fi) \<Rightarrow> Some ri | _ \<Rightarrow> p_right_indent p),
                p_first_line_indent = (case nb_indent nb of
                               Some (li, ri, Some fi) \<Rightarrow> Some fi | _ \<Rightarrow> p_first_line_indent p)\<rparr>)
     \<and> (\<forall>np. nodal_next (d_paragraphs doc) = Some np \<longrightarrow>
            nb_style_name nb = p_style np \<and> nb_alignment nb = p_alignment np
            \<and> nb_spacing nb = Some (p_space_before np, p_space_after np, p_line_spacing np)
            \<and> nb_indent nb = Some (p_left_indent np, p_right_indent np, p_first_line_indent np)
            \<and> nb_font_name nb
                = (case find (\<lambda>r. truthy_str (r_font_name r)) (p_runs np) of
                     None \<Rightarrow> tmpl_font | Some r \<Rightarrow> or_str (r_font_name r) tmpl_font)
            \<and> nb_font_size nb
                = (case find (\<lambda>r. truthy_nat (map_option (\<lambda>emu. emu div 12700) (r_font_size r)))
                          (p_runs np) of
                     None \<Rightarrow> tmpl_size
                   | Some r \<Rightarrow> or_nat (map_option (\<lambda>emu. emu div 12700) (r_font_size r)) tmpl_size)
            \<and> nb_bold nb
                = (case find (\<lambda>r. r_bold r \<noteq> None) (p_runs np) of
                     None \<Rightarrow> None | Some r \<Rightarrow> r_bold r))
     \<and> (nodal_next (d_paragraphs doc) = None \<longrightarrow>
          nb = \<lparr>nb_style_name = None, nb_alignment = None, nb_spacing = None, nb_indent = None,
                nb_font_name = tmpl_font, nb_font_size = tmpl_size, nb_bold = None\<rparr>)
     \<and> (\<forall>i. i < length (d_paragraphs doc)
              \<and> mentions_nodal (paragraph_text (d_paragraphs doc ! i))
              \<and> (\<forall>j<i. \<not> mentions_nodal (paragraph_text (d_paragraphs doc ! j))) \<longrightarrow>
          nodal_next (d_paragraphs doc)
            = (if i + 1 < length (d_paragraphs doc) then Some (d_paragraphs doc ! (i + 1))
               else None))
     \<and> ((\<forall>j<length (d_paragraphs doc). \<not> mentions_nodal (paragraph_text (d_paragraphs doc ! j)))
          \<longrightarrow> nodal_next (d_paragraphs doc) = None)"
proof -
  let ?st = "d_styles doc"
  let ?ps = "nodal_paragraphs_effect bank_name nb ?st (d_paragraphs doc)"
  let ?ts = "map (\<lambda>t. t\<lparr>t_rows := nodal_rows_effect bank_name nb ?st (t_rows t)\<rparr>) (d_tables doc)"
  let ?doc1 = "doc\<lparr>d_paragraphs := ?ps, d_tables := ?ts\<rparr>"
  have "nodal_steps doc bank_name tmpl_font tmpl_size = Inr ?doc1"
    unfolding nb by (rule nodal_steps_effect [OF rect])
  with before
  have run: "update_body template bank_name accounts placeholder tone font_name font_size
               = Inr ?doc1"
    by (simp add: update_body_def)
  have a: "length (d_paragraphs ?doc1) = length (d_paragraphs doc)"
    by (simp add: nodal_paragraphs_effect_length)
  have b: "\<forall>i. i + 1 < length (d_paragraphs doc) \<longrightarrow>
          nodal_paragraphs_loop [0..<i] bank_name nb ?st (d_paragraphs doc) ! i
            = d_paragraphs ?doc1 ! i
          \<and> d_paragraphs ?doc1 ! (i + 1)
            = (if mentions_nodal (paragraph_text (d_paragraphs ?doc1 ! i))
               then apply_baseline_to_paragraph (d_paragraphs doc ! (i + 1)) bank_name nb ?st
               else d_paragraphs doc ! (i + 1))"
  proof (intro allI impI)
    fix i assume i: "i + 1 < length (d_paragraphs doc)"
    then have "i < length (d_paragraphs doc)" by simp
    from nodal_paragraphs_read [OF this, of bank_name nb ?st]
    have "nodal_paragraphs_loop [0..<i] bank_name nb ?st (d_paragraphs doc) ! i = ?ps ! i"
      by (simp add: nodal_paragraphs_effect_eq)
    moreover note nodal_paragraphs_effect_nth [OF i, of bank_name nb ?st]
    ultimately show "nodal_paragraphs_loop [0..<i] bank_name nb ?st (d_paragraphs doc) ! i
            = d_paragraphs ?doc1 ! i
          \<and> d_paragraphs ?doc1 ! (i + 1)
            = (if mentions_nodal (paragraph_text (d_paragraphs ?doc1 ! i))
               then apply_baseline_to_paragraph (d_paragraphs doc ! (i + 1)) bank_name nb ?st
               else d_paragraphs doc ! (i + 1))"
      by simp
  qed
  have c: "length (d_tables ?doc1) = length (d_tables doc)" by simp
  have d: "\<forall>k r c. k < length (d_tables doc) \<and> r + 1 < length (t_rows (d_tables doc ! k))
                 \<and> c < length (t_grid (d_tables doc ! k)) \<longrightarrow>
          (\<exists>s s1. nodal_rows_loop [0..<r] bank_name nb ?st (d_tables doc ! k) = Inr s
                 \<and> nodal_cells_loop [0..<c] r bank_name nb ?st s = Inr s1
                 \<and> row_cells (t_rows s1 ! r) ! c
                     = row_cells (t_rows (d_tables ?doc1 ! k) ! r) ! c)
          \<and> row_cells (t_rows (d_tables ?doc1 ! k) ! (r + 1)) ! c
            = (if mentions_nodal (cell_text (row_cells (t_rows (d_tables ?doc1 ! k) ! r) ! c))
               then nodal_cell bank_name nb ?st
                      (row_cells (t_rows (d_tables doc ! k) ! (r + 1)) ! c)
               else row_cells (t_rows (d_tables doc ! k) ! (r + 1)) ! c)"
  proof (intro allI impI, elim conjE)
    fix k r c
    assume k: "k < length (d_tables doc)"
      and r: "r + 1 < length (t_rows (d_tables doc ! k))"
      and c: "c < length (t_grid (d_tables doc ! k))"
    let ?t = "d_tables doc ! k"
    from rect k have rt: "rectangular ?t" by (simp add: list_all_length)
    then have cells: "\<forall>x\<in>set (t_rows ?t). length (row_cells x) = length (t_grid ?t)"
      by (simp add: rectangular_rows)
    from k have t1: "t_rows (d_tables ?doc1 ! k) = nodal_rows_effect bank_name nb ?st (t_rows ?t)"
      by simp
    from r have r0: "r < length (t_rows ?t)" by simp
    note rd = nodal_table_read [OF rt r0 c, of bank_name nb ?st]
    note ce = nodal_rows_effect_cell [OF cells r c, of bank_name nb ?st]
    from rd ce show "(\<exists>s s1. nodal_rows_loop [0..<r] bank_name nb ?st ?t = Inr s
                 \<and> nodal_cells_loop [0..<c] r bank_name nb ?st s = Inr s1
                 \<and> row_cells (t_rows s1 ! r) ! c
                     = row_cells (t_rows (d_tables ?doc1 ! k) ! r) ! c)
          \<and> row_cells (t_rows (d_tables ?doc1 ! k) ! (r + 1)) ! c
            = (if mentions_nodal (cell_text (row_cells (t_rows (d_tables ?doc1 ! k) ! r) ! c))
               then nodal_cell bank_name nb ?st (row_cells (t_rows ?t ! (r + 1)) ! c)
               else row_cells (t_rows ?t ! (r + 1)) ! c)"
      unfolding t1 by blast
  qed
  have e: "\<forall>cl. c_paragraphs (nodal_cell bank_name nb ?st cl)
            = map (\<lambda>p. apply_baseline_to_paragraph p bank_name nb ?st) (c_paragraphs cl)"
    by (simp add: nodal_cell_def)
  note f = apply_baseline_text [of _ bank_name nb ?st]
    apply_baseline_closed_form [of _ bank_name nb ?st]
  have g: "(\<forall>np. nodal_next (d_paragraphs doc) = Some np \<longrightarrow>
            nb_style_name nb = p_style np \<and> nb_alignment nb = p_alignment np
            \<and> nb_spacing nb = Some (p_space_before np, p_space_after np, p_line_spacing np)
            \<and> nb_indent nb = Some (p_left_indent np, p_right_indent np, p_first_line_indent np)
            \<and> nb_font_name nb
                = (case find (\<lambda>r. truthy_str (r_font_name r)) (p_runs np) of
                     None \<Rightarrow> tmpl_font | Some r \<Rightarrow> or_str (r_font_name r) tmpl_font)
            \<and> nb_font_size nb
                = (case find (\<lambda>r. truthy_nat (map_option (\<lambda>emu. emu div 12700) (r_font_size r)))
                          (p_runs np) of
                     None \<Rightarrow> tmpl_size
                   | Some r \<Rightarrow> or_nat (map_option (\<lambda>emu. emu div 12700) (r_font_size r)) tmpl_size)
            \<and> nb_bold nb
                = (case find (\<lambda>r. r_bold r \<noteq> None) (p_runs np) of
                     None \<Rightarrow> None | Some r \<Rightarrow> r_bold r))"
  proof (intro allI impI)
    fix np assume n: "nodal_next (d_paragraphs doc) = Some np"
    note extract_nodal_baseline_captured [OF n, of tmpl_font tmpl_size]
      extract_nodal_baseline_fonts [OF n, of tmpl_font tmpl_size]
    then show "nb_style_name nb = p_style np \<and> nb_alignment nb = p_alignment np
            \<and> nb_spacing nb = Some (p_space_before np, p_space_after np, p_line_spacing np)
            \<and> nb_indent nb = Some (p_left_indent np, p_right_indent np, p_first_line_indent np)
            \<and> nb_font_name nb
                = (case find (\<lambda>r. truthy_str (r_font_name r)) (p_runs np) of
                     None \<Rightarrow> tmpl_font | Some r \<Rightarrow> or_str (r_font_name r) tmpl_font)
            \<and> nb_font_size nb
                = (case find (\<lambda>r. truthy_nat (map_option (\<lambda>emu. emu div 12700) (r_font_size r)))
                          (p_runs np) of
                     None \<Rightarrow> tmpl_size
                   | Some r \<Rightarrow> or_nat (map_option (\<lambda>emu. emu div 12700) (r_font_size r)) tmpl_size)
            \<and> nb_bold nb
                = (case find (\<lambda>r. r_bold r \<noteq> None) (p_runs np) of
                     None \<Rightarrow> None | Some r \<Rightarrow> r_bold r)"
      unfolding nb by (intro conjI) (simp_all only: simp_thms)
  qed
  have h: "(nodal_next (d_paragraphs doc) = None \<longrightarrow>
          nb = \<lparr>nb_style_name = None, nb_alignment = None, nb_spacing = None, nb_indent = None,
                nb_font_name = tmpl_font, nb_font_size = tmpl_size, nb_bold = None\<rparr>)"
    unfolding nb using extract_nodal_baseline_default by blast
  have i: "(\<forall>i. i < length (d_paragraphs doc)
              \<and> mentions_nodal (paragraph_text (d_paragraphs doc ! i))
              \<and> (\<forall>j<i. \<not> mentions_nodal (paragraph_text (d_paragraphs doc ! j))) \<longrightarrow>
          nodal_next (d_paragraphs doc)
            = (if i + 1 < length (d_paragraphs doc) then Some (d_paragraphs doc ! (i + 1))
               else None))"
    using nodal_next_first by blast
  have j: "((\<forall>j<length (d_paragraphs doc). \<not> mentions_nodal (paragraph_text (d_paragraphs doc ! j)))
          \<longrightarrow> nodal_next (d_paragraphs doc) = None)"
    using nodal_next_none by blast
  show ?thesis
    apply (rule exI [of _ ?doc1])
    apply (intro conjI)
    subgoal by (rule run)
    subgoal by (rule a)
    subgoal by (rule b)
    subgoal by (rule c)
    subgoal by (rule d)
    subgoal by (rule e)
    subgoal using f by blast
    subgoal by (rule g)
    subgoal by (rule h)
    subgoal by (rule i)
    subgoal by (rule j)
    done
qed

theorem nodal_officer_successors_witness:
  "paragraph_text (d_paragraphs (projr (update_body nodal_table_doc ''HDFC BANK'' []
       ''ICICI BANK'' ''formal'' ''Bookman Old Style'' 8)) ! 1) = ''HDFC BANK''
   \<and> paragraph_text (d_paragraphs (projr (update_body nodal_table_doc ''HDFC BANK'' []
       ''ICICI BANK'' ''formal'' ''Bookman Old Style'' 8)) ! 2) = ''Regards''
   \<and> c_paragraphs (row_cells (t_rows (d_tables (projr (update_body nodal_table_doc
       ''HDFC BANK'' [] ''ICICI BANK'' ''formal'' ''Bookman Old Style'' 8)) ! 0) ! 1) ! 0)
      = [\<lparr>p_runs = [\<lparr>r_text = ''HDFC BANK'', r_font_name = Some ''Arial'',
                      r_font_size = Some (Pt 11), r_bold = Some True, r_color = None\<rparr>],
           p_style = Some ''Normal'', p_alignment = Some Para_LEFT, p_space_before = None,
           p_space_after = None, p_line_spacing = None, p_left_indent = None,
           p_right_indent = None, p_first_line_indent = None\<rparr>]"
proof -
  define D where
    "D = fst (projr (before_nodal nodal_table_doc ''HDFC BANK'' [] ''ICICI BANK''
                       ''formal'' ''Bookman Old Style'' 8))"
  define P1 where
    "P1 = \<lparr>p_runs =
              [\<lparr>r_text = ''Old '', r_font_name = Some ''Arial'', r_font_size = None,
                r_bold = None, r_color = None\<rparr>,
               \<lparr>r_text = ''officer'', r_font_name = Some ''Calibri'',
                r_font_size = Some (Pt 11), r_bold = Some True, r_color = None\<rparr>],
            p_style = Some ''Normal'', p_alignment = Some Para_LEFT, p_space_before = None,
            p_space_after = None, p_line_spacing = None, p_left_indent = None,
            p_right_indent = None, p_first_line_indent = None\<rparr>"
  define C10 where
    "C10 = (text_cell ''Old officer'')\<lparr>c_vertical_alignment := Some V_CENTER\<rparr>"
  let ?nb = "extract_nodal_baseline D ''Calibri'' 11"
  let ?run = "update_body nodal_table_doc ''HDFC BANK'' [] ''ICICI BANK'' ''formal''
                ''Bookman Old Style'' 8"
  have bn: "before_nodal nodal_table_doc ''HDFC BANK'' [] ''ICICI BANK''
              ''formal'' ''Bookman Old Style'' 8 = Inr (D, ''Calibri'', 11)"
    unfolding D_def by (simp add: nodal_table_doc_def doc_eval_defs upt_rec)
  have dp: "d_paragraphs D
      = [(text_paragraph ''Nodal Officer'')\<lparr>p_alignment := Some Para_LEFT\<rparr>, P1,
         (text_paragraph ''Regards'')\<lparr>p_alignment := Some Para_LEFT\<rparr>]"
    unfolding D_def P1_def by (simp add: nodal_table_doc_def doc_eval_defs upt_rec)
  have dt: "map (\<lambda>t. (length (t_grid t), map row_cells (t_rows t))) (d_tables D)
      = [(2, [[(text_cell ''Nodal Officer'')\<lparr>c_vertical_alignment := Some V_CENTER\<rparr>,
               (text_cell ''Branch'')\<lparr>c_vertical_alignment := Some V_CENTER\<rparr>],
              [C10, (text_cell ''HDFC BANK branch'')\<lparr>c_vertical_alignment := Some V_CENTER\<rparr>]])]"
    unfolding D_def C10_def by (simp add: nodal_table_doc_def doc_eval_defs upt_rec)
  have ds: "d_styles D = [''Normal'']"
    unfolding D_def by (simp add: nodal_table_doc_def doc_eval_defs upt_rec)
  have rt: "list_all rectangular (d_tables D)"
    unfolding D_def by (simp add: nodal_table_doc_def doc_eval_defs upt_rec rectangular_def)
  have len: "length (d_paragraphs D) = 3" by (simp add: dp)
  have lt: "length (d_tables D) = 1"
    using arg_cong [OF dt, of length] by simp
  obtain T where dT: "d_tables D = [T]"
    using lt by (cases "d_tables D") auto
  from dt dT have tg: "length (t_grid T) = 2"
    and tr: "map row_cells (t_rows T)
      = [[(text_cell ''Nodal Officer'')\<lparr>c_vertical_alignment := Some V_CENTER\<rparr>,
          (text_cell ''Branch'')\<lparr>c_vertical_alignment := Some V_CENTER\<rparr>],
         [C10, (text_cell ''HDFC BANK branch'')\<lparr>c_vertical_alignment := Some V_CENTER\<rparr>]]"
    by simp_all
  have lr: "length (t_rows T) = 2"
    using arg_cong [OF tr, of length] by simp
  have c00: "row_cells (t_rows T ! 0) ! 0
               = (text_cell ''Nodal Officer'')\<lparr>c_vertical_alignment := Some V_CENTER\<rparr>"
    using arg_cong [OF tr, of "\<lambda>x. x ! 0 ! 0"] lr by simp
  have c10: "row_cells (t_rows T ! 1) ! 0 = C10"
    using arg_cong [OF tr, of "\<lambda>x. x ! 1 ! 0"] lr by simp
  have n0: "mentions_nodal (paragraph_text (d_paragraphs D ! 0))"
    by (simp add: dp mentions_nodal_def lower_defs sample_text_defs)
  have m00: "mentions_nodal (cell_text (row_cells (t_rows T ! 0) ! 0))"
    by (simp add: c00 mentions_nodal_def lower_defs cell_text_def text_cell_def new_cell_def
        sample_text_defs)
  have nm: "\<not> mentions_nodal ''HDFC BANK''"
    by (simp add: mentions_nodal_def lower_defs)
  from nodal_officer_successors [OF bn rt refl]
  obtain doc1 where
    u: "?run = Inr doc1"
    and st: "\<forall>i. i + 1 < length (d_paragraphs D) \<longrightarrow>
          nodal_paragraphs_loop [0..<i] ''HDFC BANK'' ?nb (d_styles D) (d_paragraphs D) ! i
            = d_paragraphs doc1 ! i
          \<and> d_paragraphs doc1 ! (i + 1)
            = (if mentions_nodal (paragraph_text (d_paragraphs doc1 ! i))
               then apply_baseline_to_paragraph (d_paragraphs D ! (i + 1)) ''HDFC BANK'' ?nb
                      (d_styles D)
               else d_paragraphs D ! (i + 1))"
    and tb: "\<forall>k r c. k < length (d_tables D) \<and> r + 1 < length (t_rows (d_tables D ! k))
                 \<and> c < length (t_grid (d_tables D ! k)) \<longrightarrow>
          (\<exists>s s1. nodal_rows_loop [0..<r] ''HDFC BANK'' ?nb (d_styles D) (d_tables D ! k) = Inr s
                 \<and> nodal_cells_loop [0..<c] r ''HDFC BANK'' ?nb (d_styles D) s = Inr s1
                 \<and> row_cells (t_rows s1 ! r) ! c
                     = row_cells (t_rows (d_tables doc1 ! k) ! r) ! c)
          \<and> row_cells (t_rows (d_tables doc1 ! k) ! (r + 1)) ! c
            = (if mentions_nodal (cell_text (row_cells (t_rows (d_tables doc1 ! k) ! r) ! c))
               then nodal_cell ''HDFC BANK'' ?nb (d_styles D)
                      (row_cells (t_rows (d_tables D ! k) ! (r + 1)) ! c)
               else row_cells (t_rows (d_tables D ! k) ! (r + 1)) ! c)"
    and nc: "\<forall>cl. c_paragraphs (nodal_cell ''HDFC BANK'' ?nb (d_styles D) cl)
            = map (\<lambda>p. apply_baseline_to_paragraph p ''HDFC BANK'' ?nb (d_styles D))
                (c_paragraphs cl)"
    and cf: "\<forall>p. paragraph_text (apply_baseline_to_paragraph p ''HDFC BANK'' ?nb (d_styles D))
              = ''HDFC BANK''
            \<and> apply_baseline_to_paragraph p ''HDFC BANK'' ?nb (d_styles D) =
               \<lparr>p_runs = [\<lparr>r_text = ''HDFC BANK'', r_font_name = Some (nb_font_name ?nb),
                  r_font_size = (if nb_font_size ?nb \<noteq> 0 then Some (Pt (nb_font_size ?nb))
                                 else None),
                  r_bold = nb_bold ?nb, r_color = None\<rparr>],
                p_style = (case nb_style_name ?nb of
                   None \<Rightarrow> p_style p
                 | Some n \<Rightarrow> if n \<noteq> [] \<and> n \<in> set (d_styles D) then Some n else p_style p),
                p_alignment = (case nb_alignment ?nb of
                       None \<Rightarrow> p_alignment p | Some a \<Rightarrow> Some a),
                p_space_before = (case nb_spacing ?nb of
                          Some (Some sb, sa, ls) \<Rightarrow> Some sb | _ \<Rightarrow> p_space_before p),
                p_space_after = (case nb_spacing ?nb of
                         Some (sb, Some sa, ls) \<Rightarrow> Some sa | _ \<Rightarrow> p_space_after p),
                p_line_spacing = (case nb_spacing ?nb of
                          Some (sb, sa, Some ls) \<Rightarrow> Some ls | _ \<Rightarrow> p_line_spacing p),
                p_left_indent = (case nb_indent ?nb of
                         Some (Some li, ri, fi) \<Rightarrow> Some li | _ \<Rightarrow> p_left_indent p),
                p_right_indent = (case nb_indent ?nb of
                          Some (li, Some ri, fi) \<Rightarrow> Some ri | _ \<Rightarrow> p_right_indent p),
                p_first_line_indent = (case nb_indent ?nb of
                               Some (li, ri, Some fi) \<Rightarrow> Some fi | _ \<Rightarrow> p_first_line_indent p)\<rparr>"
    and cap: "\<forall>np. nodal_next (d_paragraphs D) = Some np \<longrightarrow>
            nb_style_name ?nb = p_style np \<and> nb_alignment ?nb = p_alignment np
            \<and> nb_spacing ?nb = Some (p_space_before np, p_space_after np, p_line_spacing np)
            \<and> nb_indent ?nb = Some (p_left_indent np, p_right_indent np, p_first_line_indent np)
            \<and> nb_font_name ?nb
                = (case find (\<lambda>r. truthy_str (r_font_name r)) (p_runs np) of
                     None \<Rightarrow> ''Calibri'' | Some r \<Rightarrow> or_str (r_font_name r) ''Calibri'')
            \<and> nb_font_size ?nb
                = (case find (\<lambda>r. truthy_nat (map_option (\<lambda>emu. emu div 12700) (r_font_size r)))
                          (p_runs np) of
                     None \<Rightarrow> 11
                   | Some r \<Rightarrow> or_nat (map_option (\<lambda>emu. emu div 12700) (r_font_size r)) 11)
            \<and> nb_bold ?nb
                = (case find (\<lambda>r. r_bold r \<noteq> None) (p_runs np) of
                     None \<Rightarrow> None | Some r \<Rightarrow> r_bold r)"
    and nx: "\<forall>i. i < length (d_paragraphs D)
              \<and> mentions_nodal (paragraph_text (d_paragraphs D ! i))
              \<and> (\<forall>j<i. \<not> mentions_nodal (paragraph_text (d_paragraphs D ! j))) \<longrightarrow>
          nodal_next (d_paragraphs D)
            = (if i + 1 < length (d_paragraphs D) then Some (d_paragraphs D ! (i + 1))
               else None)"
    by (elim exE conjE) blast
  from nx [rule_format, of 0] n0 len
  have "nodal_next (d_paragraphs D) = Some (d_paragraphs D ! 1)" by simp
  then have nn: "nodal_next (d_paragraphs D) = Some P1" by (simp add: dp)
  from cap [rule_format, OF nn]
  have b1: "nb_style_name ?nb = Some ''Normal''" and b2: "nb_alignment ?nb = Some Para_LEFT"
    and b3: "nb_spacing ?nb = Some (None, None, None)"
    and b4: "nb_indent ?nb = Some (None, None, None)"
    and b5: "nb_font_name ?nb = ''Arial''" and b6: "nb_font_size ?nb = 11"
    and b7: "nb_bold ?nb = Some True"
    by (simp_all add: P1_def truthy_defs Pt_def del: not_None_eq)
  from st [rule_format, of 0] len
  have p0: "d_paragraphs doc1 ! 0 = d_paragraphs D ! 0"
    and s1: "d_paragraphs doc1 ! 1
            = (if mentions_nodal (paragraph_text (d_paragraphs doc1 ! 0))
               then apply_baseline_to_paragraph (d_paragraphs D ! 1) ''HDFC BANK'' ?nb (d_styles D)
               else d_paragraphs D ! 1)"
    by simp_all
  from s1 p0 n0
  have e1: "d_paragraphs doc1 ! 1
          = apply_baseline_to_paragraph (d_paragraphs D ! 1) ''HDFC BANK'' ?nb (d_styles D)"
    by simp
  have t1: "paragraph_text (d_paragraphs doc1 ! 1) = ''HDFC BANK''"
    unfolding e1 by (rule cf [rule_format, THEN conjunct1])
  from st [rule_format, of 1] len
  have "d_paragraphs doc1 ! 2
            = (if mentions_nodal (paragraph_text (d_paragraphs doc1 ! 1))
               then apply_baseline_to_paragraph (d_paragraphs D ! 2) ''HDFC BANK'' ?nb (d_styles D)
               else d_paragraphs D ! 2)"
    by (simp add: numeral_2_eq_2)
  with t1 nm have "d_paragraphs doc1 ! 2 = d_paragraphs D ! 2" by simp
  then have t2: "paragraph_text (d_paragraphs doc1 ! 2) = ''Regards''"
    by (simp add: dp sample_text_defs)
  from tb [rule_format, of 0 0 0] lt lr tg dT
  obtain s s1 where
    "nodal_rows_loop [0..<0] ''HDFC BANK'' ?nb (d_styles D) T = Inr s"
    "nodal_cells_loop [0..<0] 0 ''HDFC BANK'' ?nb (d_styles D) s = Inr s1"
    "row_cells (t_rows s1 ! 0) ! 0 = row_cells (t_rows (d_tables doc1 ! 0) ! 0) ! 0"
    and below: "row_cells (t_rows (d_tables doc1 ! 0) ! (0 + 1)) ! 0
            = (if mentions_nodal (cell_text (row_cells (t_rows (d_tables doc1 ! 0) ! 0) ! 0))
               then nodal_cell ''HDFC BANK'' ?nb (d_styles D) (row_cells (t_rows T ! (0 + 1)) ! 0)
               else row_cells (t_rows T ! (0 + 1)) ! 0)"
    by auto
  then have "row_cells (t_rows (d_tables doc1 ! 0) ! 0) ! 0 = row_cells (t_rows T ! 0) ! 0"
    by simp
  with below m00 c10
  have "row_cells (t_rows (d_tables doc1 ! 0) ! 1) ! 0
          = nodal_cell ''HDFC BANK'' ?nb (d_styles D) C10"
    by simp
  then have "c_paragraphs (row_cells (t_rows (d_tables doc1 ! 0) ! 1) ! 0)
      = map (\<lambda>p. apply_baseline_to_paragraph p ''HDFC BANK'' ?nb (d_styles D)) (c_paragraphs C10)"
    using nc by simp
  also have "\<dots> = [apply_baseline_to_paragraph (text_paragraph ''Old officer'') ''HDFC BANK'' ?nb
                     (d_styles D)]"
    by (simp add: C10_def text_cell_def new_cell_def)
  also have "\<dots> = [\<lparr>p_runs = [\<lparr>r_text = ''HDFC BANK'', r_font_name = Some ''Arial'',
                      r_font_size = Some (Pt 11), r_bold = Some True, r_color = None\<rparr>],
           p_style = Some ''Normal'', p_alignment = Some Para_LEFT, p_space_before = None,
           p_space_after = None, p_line_spacing = None, p_left_indent = None,
           p_right_indent = None, p_first_line_indent = None\<rparr>]"
    using cf [rule_format, of "text_paragraph ''Old officer''", THEN conjunct2]
    by (simp add: b1 b2 b3 b4 b5 b6 b7 ds sample_text_defs)
  finally have t3: "c_paragraphs (row_cells (t_rows (d_tables doc1 ! 0) ! 1) ! 0)
      = [\<lparr>p_runs = [\<lparr>r_text = ''HDFC BANK'', r_font_name = Some ''Arial'',
                      r_font_size = Some (Pt 11), r_bold = Some True, r_color = None\<rparr>],
           p_style = Some ''Normal'', p_alignment = Some Para_LEFT, p_space_before = None,
           p_space_after = None, p_line_spacing = None, p_left_indent = None,
           p_right_indent = None, p_first_line_indent = None\<rparr>]" .
  from t1 t2 t3 show ?thesis unfolding u by simp
qed

text \<open>
  Claim C6 as stated speaks of every body paragraph whose text contains the label. A label
  that is itself the paragraph after a label is overwritten with the bank name before the
  loop reaches it, so the paragraph after it stays as it is: of the paragraphs
  \<^verbatim>\<open>Nodal Officer\<close>, \<^verbatim>\<open>Deputy Nodal Officer\<close>, \<^verbatim>\<open>Address\<close> the second one contains the label
  and has a following paragraph, and the saved document still ends with \<^verbatim>\<open>Address\<close>.
\<close>

theorem nodal_label_after_label_counterexample:
  "mentions_nodal (paragraph_text (d_paragraphs deputy_doc ! 1))
   \<and> 1 + 1 < length (d_paragraphs deputy_doc)
   \<and> fst (update_word_template (Inr deputy_doc) None ''HDFC BANK'' [] ''ICICI BANK'' ''formal''
            ''Bookman Old Style'' 8)
   \<and> map paragraph_text (d_paragraphs (the (snd
        (update_word_template (Inr deputy_doc) None ''HDFC BANK'' [] ''ICICI BANK'' ''formal''
           ''Bookman Old Style'' 8))))
       = [''Nodal Officer'', ''HDFC BANK'', ''Address'']"
  by (simp add: update_word_template_def deputy_doc_def doc_eval_defs upt_rec)

section \<open>Properties of the accounts table\<close>

lemma paragraph_text_style:
  "map paragraph_text (apply_paragraph_style ps tmpl_font tmpl_size spacing)
     = map paragraph_text ps"
  by (cases spacing) (simp_all add: apply_paragraph_style_def paragraph_text_def comp_def Let_def)

lemma cell_text_cong:
  "map paragraph_text (c_paragraphs c1) = map paragraph_text (c_paragraphs c) \<Longrightarrow>
   cell_text c1 = cell_text c"
  by (simp add: cell_text_def)

lemma cell_text_set: "cell_text (set_cell_text c t) = t"
  by (simp add: cell_text_def set_cell_text_def paragraph_text_def new_run_def)

lemma cell_text_style_account:
  "cell_text (style_account_cell tmpl_font tmpl_size spacing c) = cell_text c"
  by (rule cell_text_cong)
     (simp add: style_account_cell_def set_cell_margins_def set_cell_borders_def
        paragraph_text_style)

lemma paragraph_text_bold:
  "map paragraph_text
     (map (\<lambda>p. p\<lparr>p_runs := map (\<lambda>r. r\<lparr>r_bold := Some True\<rparr>) (p_runs p)\<rparr>) ps)
   = map paragraph_text ps"
  by (induction ps) (simp_all add: paragraph_text_def comp_def)

lemma cell_text_restyle_header:
  "cell_text (restyle_header_cell tmpl_font tmpl_size spacing c) = cell_text c"
proof (rule cell_text_cong)
  have "c_paragraphs (restyle_header_cell tmpl_font tmpl_size spacing c)
        = map (\<lambda>p. p\<lparr>p_runs := map (\<lambda>r. r\<lparr>r_bold := Some True\<rparr>) (p_runs p)\<rparr>)
            (apply_paragraph_style (c_paragraphs c) tmpl_font tmpl_size spacing)"
    by (simp add: restyle_header_cell_def set_cell_margins_def)
  then show "map paragraph_text
       (c_paragraphs (restyle_header_cell tmpl_font tmpl_size spacing c))
      = map paragraph_text (c_paragraphs c)"
    by (simp only: paragraph_text_bold paragraph_text_style)
qed

lemma cell_text_set_width: "cell_text (set_cell_width c w) = cell_text c"
  by (cases w) (simp_all add: set_cell_width_def cell_text_def)

lemma restyle_header_bold:
  "p \<in> set (c_paragraphs (restyle_header_cell tmpl_font tmpl_size spacing c)) \<Longrightarrow>
   r \<in> set (p_runs p) \<Longrightarrow> r_bold r = Some True"
  by (auto simp: restyle_header_cell_def set_cell_margins_def)

lemma restyle_header_margins:
  "c_margins (restyle_header_cell tmpl_font tmpl_size spacing c) = c_margins c @ [(36, 36, 36, 36)]"
  by (simp add: restyle_header_cell_def set_cell_margins_def)

lemma style_account_margins:
  "c_margins (style_account_cell tmpl_font tmpl_size spacing c) = c_margins c @ [(36, 36, 36, 36)]"
  by (simp add: style_account_cell_def set_cell_margins_def set_cell_borders_def)

lemma cell_text_enumerate_width:
  "map cell_text (map (\<lambda>(idx, c). set_cell_width c (f idx)) (enumerate n cs))
     = map cell_text cs"
  by (induction cs arbitrary: n) (simp_all add: cell_text_set_width)

lemma new_account_row_ok:
  assumes "length (t_grid t) = 3"
  shows "\<exists>r. new_account_row tmpl_font tmpl_size (header_widths, header_row_height, header_spacing)
                t acct = Inr r
           \<and> map cell_text (row_cells r) = [account_no acct, account_name acct, ifsc acct]
           \<and> row_height r = Some (row_height_or_default header_row_height tmpl_size)
           \<and> row_height_rule r = Some AT_LEAST"
proof -
  from assms obtain g0 g1 g2 where g: "t_grid t = [g0, g1, g2]"
    by (auto simp: numeral_3_eq_3 length_Suc_conv)
  define cells2 where
    "cells2 = map (style_account_cell tmpl_font tmpl_size header_spacing)
                  [set_cell_text (new_cell g0) (account_no acct),
                   set_cell_text (new_cell g1) (account_name acct),
                   set_cell_text (new_cell g2) (ifsc acct)]"
  define cells3 where
    "cells3 = (case header_widths of
                 None \<Rightarrow> cells2
               | Some ws \<Rightarrow>
                   if ws = [] then cells2
                   else map (\<lambda>(idx, c). set_cell_width c (if idx < length ws then ws ! idx else None))
                            (enumerate 0 cells2))"
  have t2: "map cell_text cells2 = [account_no acct, account_name acct, ifsc acct]"
    unfolding cells2_def by (simp add: cell_text_style_account cell_text_set)
  have t3: "map cell_text cells3 = map cell_text cells2"
    unfolding cells3_def
    by (cases header_widths) (simp_all add: cell_text_enumerate_width del: map_map)
  have nr: "new_account_row tmpl_font tmpl_size (header_widths, header_row_height, header_spacing)
               t acct
            = Inr \<lparr>row_cells = cells3,
                   row_height = Some (row_height_or_default header_row_height tmpl_size),
                   row_height_rule = Some AT_LEAST\<rparr>"
    unfolding cells3_def cells2_def
    by (simp add: new_account_row_def add_row_def g Let_def)
  show ?thesis unfolding nr using t2 t3 by simp
qed

lemma add_account_rows_ok:
  "length (t_grid t) = 3 \<Longrightarrow>
   \<exists>rs. add_account_rows accts tmpl_font tmpl_size
            (header_widths, header_row_height, header_spacing) t
          = Inr (t\<lparr>t_rows := t_rows t @ rs\<rparr>)
        \<and> list_all2 (\<lambda>acct r.
              map cell_text (row_cells r) = [account_no acct, account_name acct, ifsc acct]
              \<and> row_height r = Some (row_height_or_default header_row_height tmpl_size)
              \<and> row_height_rule r = Some AT_LEAST) accts rs"
proof (induction accts arbitrary: t)
  case Nil
  then show ?case by simp
next
  case (Cons acct accts)
  from new_account_row_ok [OF Cons.prems, of tmpl_font tmpl_size header_widths
      header_row_height header_spacing acct]
  obtain r where r: "new_account_row tmpl_font tmpl_size
        (header_widths, header_row_height, header_spacing) t acct = Inr r"
    "map cell_text (row_cells r) = [account_no acct, account_name acct, ifsc acct]"
    "row_height r = Some (row_height_or_default header_row_height tmpl_size)"
    "row_height_rule r = Some AT_LEAST"
    by (elim exE conjE) (rule that)
  have "length (t_grid (t\<lparr>t_rows := t_rows t @ [r]\<rparr>)) = 3" using Cons.prems by simp
  from Cons.IH [OF this] obtain rs where
    rs: "add_account_rows accts tmpl_font tmpl_size
            (header_widths, header_row_height, header_spacing) (t\<lparr>t_rows := t_rows t @ [r]\<rparr>)
          = Inr (t\<lparr>t_rows := (t_rows t @ [r]) @ rs\<rparr>)"
      "list_all2 (\<lambda>acct r.
              map cell_text (row_cells r) = [account_no acct, account_name acct, ifsc acct]
              \<and> row_height r = Some (row_height_or_default header_row_height tmpl_size)
              \<and> row_height_rule r = Some AT_LEAST) accts rs"
    by auto
  show ?case
    apply (rule exI [of _ "r # rs"])
    using r rs by simp
qed

lemma delete_rows_take: "delete_rows n rs = take (length rs - n) rs"
  by (induction n arbitrary: rs) (simp_all add: butlast_conv_take)


lemma regenerate_accounts_table_ok:
  assumes grid: "length (t_grid t) = 3" and rows: "t_rows t = header_row # rest"
  shows "\<exists>rs. regenerate_accounts_table styles accts tmpl_font tmpl_size
                 (header_widths, header_row_height, header_spacing) t
          = Inr (set_table_borders (set_table_grid_style styles
                   (t\<lparr>t_rows :=
                        header_row
                          \<lparr>row_cells := map (restyle_header_cell tmpl_font tmpl_size header_spacing)
                                          (row_cells header_row),
                           row_height := Some (row_height_or_default header_row_height tmpl_size),
                           row_height_rule := Some AT_LEAST\<rparr> # rs\<rparr>)))
        \<and> list_all2 (\<lambda>acct r.
              map cell_text (row_cells r) = [account_no acct, account_name acct, ifsc acct]
              \<and> row_height r = Some (row_height_or_default header_row_height tmpl_size)
              \<and> row_height_rule r = Some AT_LEAST) accts rs"
proof -
  let ?h = "header_row
              \<lparr>row_cells := map (restyle_header_cell tmpl_font tmpl_size header_spacing)
                              (row_cells header_row),
               row_height := Some (row_height_or_default header_row_height tmpl_size),
               row_height_rule := Some AT_LEAST\<rparr>"
  have del: "delete_rows (length (?h # rest) - 1) (?h # rest) = [?h]"
    by (simp add: delete_rows_take)
  have "length (t_grid (t\<lparr>t_rows := [?h]\<rparr>)) = 3" using grid by simp
  from add_account_rows_ok [OF this, of accts tmpl_font tmpl_size header_widths
      header_row_height header_spacing]
  obtain rs where
    rs: "add_account_rows accts tmpl_font tmpl_size
            (header_widths, header_row_height, header_spacing) (t\<lparr>t_rows := [?h]\<rparr>)
          = Inr (t\<lparr>t_rows := ?h # rs\<rparr>)"
      "list_all2 (\<lambda>acct r.
              map cell_text (row_cells r) = [account_no acct, account_name acct, ifsc acct]
              \<and> row_height r = Some (row_height_or_default header_row_height tmpl_size)
              \<and> row_height_rule r = Some AT_LEAST) accts rs"
    by auto
  have "regenerate_accounts_table styles accts tmpl_font tmpl_size
                 (header_widths, header_row_height, header_spacing) t
          = Inr (set_table_borders (set_table_grid_style styles (t\<lparr>t_rows := ?h # rs\<rparr>)))"
    unfolding regenerate_accounts_table_def
    by (simp only: prod.case rows list.case Let_def del rs(1) sum.case)
  with rs(2) show ?thesis by blast
qed

lemma update_accounts_table_selected:
  assumes skip: "list_all skips_table pre" and sel: "selects_table t"
  shows "update_accounts_table (pre @ t # post) styles accts tmpl_font tmpl_size hb
     = (case regenerate_accounts_table styles accts tmpl_font tmpl_size hb t of
          Inl e \<Rightarrow> Inl e
        | Inr t1 \<Rightarrow> Inr (pre @ t1 # post))"
  using skip
proof (induction pre)
  case Nil
  from sel obtain h rest where "length (t_grid t) = 3" "t_rows t = h # rest"
    "is_accounts_header h"
    by (auto simp: selects_table_def split: list.splits)
  then show ?case by (simp add: py_index_def split: sum.splits)
next
  case (Cons u pre)
  then have u: "skips_table u" and rest: "list_all skips_table pre" by simp_all
  from Cons.IH [OF rest] u show ?case
    by (auto simp: skips_table_def py_index_def split: list.splits sum.splits)
qed

lemma nodal_below_heights:
  "row_height (nodal_below bank_name baseline styles a b) = row_height b"
  "row_height_rule (nodal_below bank_name baseline styles a b) = row_height_rule b"
  by (simp_all add: nodal_below_def)

lemma nodal_rows_effect_heights:
  "map row_height (nodal_rows_effect bank_name baseline styles rs) = map row_height rs
   \<and> map row_height_rule (nodal_rows_effect bank_name baseline styles rs)
       = map row_height_rule rs"
  by (induction bank_name baseline styles rs rule: nodal_rows_effect.induct)
     (simp_all add: nodal_below_heights)

lemma nodal_below_quiet:
  assumes "\<forall>c\<in>set (row_cells a). \<not> mentions_nodal (cell_text c)"
    and "length (row_cells a) = length (row_cells b)"
  shows "nodal_below bank_name baseline styles a b = b"
proof -
  have "map (\<lambda>(x, y). if mentions_nodal (cell_text x)
                       then nodal_cell bank_name baseline styles y else y)
            (zip (row_cells a) (row_cells b))
        = map snd (zip (row_cells a) (row_cells b))"
    using assms(1) by (auto dest: set_zip_leftD)
  also have "\<dots> = row_cells b" using assms(2) by simp
  finally show ?thesis by (simp add: nodal_below_def)
qed

lemma nodal_rows_effect_quiet:
  "\<forall>r\<in>set rs. length (row_cells r) = n \<and> (\<forall>c\<in>set (row_cells r). \<not> mentions_nodal (cell_text c))
   \<Longrightarrow> nodal_rows_effect bank_name baseline styles rs = rs"
  by (induction bank_name baseline styles rs rule: nodal_rows_effect.induct)
     (simp_all add: nodal_below_quiet)


lemma replace_placeholder_styles [simp]:
  "d_styles (replace_placeholder doc placeholder bank_name) = d_styles doc"
  by (simp add: replace_placeholder_def)

lemma apply_tone_styles [simp]: "d_styles (apply_tone doc tone fn fs) = d_styles doc"
  by (simp add: apply_tone_def Let_def)

lemma rectangular_regenerated:
  assumes "rectangular t" and "t_rows t = header_row # rest" and "length (t_grid t) = 3"
    and "list_all2 (\<lambda>acct r.
              map cell_text (row_cells r) = [account_no acct, account_name acct, ifsc acct]
              \<and> P acct r) accts rs"
  shows "rectangular (set_table_borders (set_table_grid_style styles
           (t\<lparr>t_rows := header_row\<lparr>row_cells := map f (row_cells header_row),
                                     row_height := h, row_height_rule := rule\<rparr> # rs\<rparr>)))"
proof -
  from assms(1,2) have "length (row_cells header_row) = length (t_grid t)"
    by (simp add: rectangular_rows)
  moreover have "\<forall>r\<in>set rs. length (row_cells r) = 3"
  proof
    fix r assume "r \<in> set rs"
    then obtain i where i: "i < length rs" "r = rs ! i"
      by (auto simp: in_set_conv_nth)
    with assms(4) have
      "map cell_text (row_cells r)
         = [account_no (accts ! i), account_name (accts ! i), ifsc (accts ! i)]"
      by (simp add: list_all2_conv_all_nth)
    then have "length (map cell_text (row_cells r)) = 3" by simp
    then show "length (row_cells r) = 3" by simp
  qed
  ultimately show ?thesis
    using assms(3)
    by (simp add: rectangular_rows set_table_borders_def set_table_grid_style_def)
qed


text \<open>
  Claim C1, amended. Let the baseline extraction succeed on the template, and let the
  tables of the document, as it stands after the tone styling and the placeholder
  replacement, be rectangular and consist of tables that the table loop passes over, then
  a table that it selects (three grid columns, and a first row whose text contains
  \<^verbatim>\<open>account\<close> and \<^verbatim>\<open>ifsc\<close> in any case of letters), then any tables. Then
  \<^verbatim>\<open>update_word_template\<close> raises nothing before saving, and leaves the selected table
  with exactly one row more than there are accounts. When the table step ends, the row
  appended for the account at each position holds, in its three cells, the account
  number, the account name and the code of that account; these are still the texts of
  the cells in the final document when no header cell and no field of an account
  mentions the nodal officer. In the final document the header row keeps its texts, all
  its runs are bold and each of its cells ends with a margin element of 36 on the four
  sides; and every row of the table has the at-least height rule and the height captured
  from the header row or, when that is absent or zero, the baseline font size plus six
  points.
\<close>

theorem accounts_table_regenerated:
  assumes ext: "extract_template_baseline template font_name font_size
                  = Inr (tmpl_font, tmpl_size, header_widths, header_row_height, header_spacing)"
    and tabs: "d_tables (replace_placeholder (apply_tone template tone None None)
                           placeholder bank_name) = pre @ t # post"
    and skip: "list_all skips_table pre"
    and sel: "selects_table t"
    and rect: "list_all rectangular (pre @ t # post)"
  shows "\<exists>doc3 doc1.
       before_nodal template bank_name accounts placeholder tone font_name font_size
         = Inr (doc3, tmpl_font, tmpl_size)
     \<and> update_body template bank_name accounts placeholder tone font_name font_size = Inr doc1
     \<and> length (d_tables doc3) = length (pre @ t # post)
     \<and> length (d_tables doc1) = length (pre @ t # post)
     \<and> length (t_rows (d_tables doc3 ! length pre)) = 1 + length accounts
     \<and> length (t_rows (d_tables doc1 ! length pre)) = 1 + length accounts
     \<and> (\<forall>i<length accounts.
           map cell_text (row_cells (t_rows (d_tables doc3 ! length pre) ! (i + 1)))
             = [account_no (accounts ! i), account_name (accounts ! i), ifsc (accounts ! i)])
     \<and> ((\<forall>c\<in>set (row_cells (hd (t_rows t))). \<not> mentions_nodal (cell_text c))
          \<and> (\<forall>a\<in>set accounts. \<not> mentions_nodal (account_no a)
                 \<and> \<not> mentions_nodal (account_name a) \<and> \<not> mentions_nodal (ifsc a))
          \<longrightarrow> (\<forall>i<length accounts.
                 map cell_text (row_cells (t_rows (d_tables doc1 ! length pre) ! (i + 1)))
                   = [account_no (accounts ! i), account_name (accounts ! i),
                      ifsc (accounts ! i)]))
     \<and> map cell_text (row_cells (t_rows (d_tables doc1 ! length pre) ! 0))
         = map cell_text (row_cells (hd (t_rows t)))
     \<and> (\<forall>c\<in>set (row_cells (t_rows (d_tables doc1 ! length pre) ! 0)).
           (\<forall>p\<in>set (c_paragraphs c). \<forall>r\<in>set (p_runs p). r_bold r = Some True)
           \<and> c_margins c \<noteq> [] \<and> last (c_margins c) = (36, 36, 36, 36))
     \<and> (\<forall>r\<in>set (t_rows (d_tables doc1 ! length pre)).
           row_height r
             = Some (case header_row_height of
                       None \<Rightarrow> Pt (tmpl_size + 6)
                     | Some h \<Rightarrow> if h \<noteq> 0 then h else Pt (tmpl_size + 6))
           \<and> row_height_rule r = Some AT_LEAST)"
proof -
  let ?doc2 = "replace_placeholder (apply_tone template tone None None) placeholder bank_name"
  let ?st = "d_styles template"
  let ?H = "row_height_or_default header_row_height tmpl_size"
  let ?P = "\<lambda>acct r.
              map cell_text (row_cells r) = [account_no acct, account_name acct, ifsc acct]
              \<and> row_height r = Some ?H \<and> row_height_rule r = Some AT_LEAST"
  from sel obtain header_row rest where grid: "length (t_grid t) = 3"
    and rows: "t_rows t = header_row # rest"
    by (auto simp: selects_table_def split: list.splits)
  let ?h1 = "header_row
               \<lparr>row_cells := map (restyle_header_cell tmpl_font tmpl_size header_spacing)
                               (row_cells header_row),
                row_height := Some ?H, row_height_rule := Some AT_LEAST\<rparr>"
  from regenerate_accounts_table_ok [OF grid rows, of ?st accounts tmpl_font tmpl_size
      header_widths header_row_height header_spacing]
  obtain rs where
    reg: "regenerate_accounts_table ?st accounts tmpl_font tmpl_size
            (header_widths, header_row_height, header_spacing) t
          = Inr (set_table_borders (set_table_grid_style ?st (t\<lparr>t_rows := ?h1 # rs\<rparr>)))"
    and all2: "list_all2 ?P accounts rs"
    by (elim exE conjE) (rule that)
  let ?t3 = "set_table_borders (set_table_grid_style ?st (t\<lparr>t_rows := ?h1 # rs\<rparr>))"
  let ?doc3 = "?doc2\<lparr>d_tables := pre @ ?t3 # post\<rparr>"
  have rows3: "t_rows ?t3 = ?h1 # rs"
    by (simp add: set_table_borders_def set_table_grid_style_def)
  have bn: "before_nodal template bank_name accounts placeholder tone font_name font_size
         = Inr (?doc3, tmpl_font, tmpl_size)"
    using update_accounts_table_selected [OF skip sel, of post ?st accounts tmpl_font tmpl_size
        "(header_widths, header_row_height, header_spacing)"]
    by (simp add: before_nodal_def ext Let_def tabs reg)
  have len: "length rs = length accounts"
    using all2 by (simp add: list_all2_lengthD)
  have nth: "\<forall>i<length accounts. ?P (accounts ! i) (rs ! i)"
    using all2 by (simp add: list_all2_conv_all_nth)
  from rect have rt: "rectangular t" and rpre: "list_all rectangular pre"
    and rpost: "list_all rectangular post" by simp_all
  have r3: "rectangular ?t3"
    by (rule rectangular_regenerated [OF rt rows grid all2])
  with rpre rpost have rect3: "list_all rectangular (d_tables ?doc3)" by simp
  let ?nb = "extract_nodal_baseline ?doc3 tmpl_font tmpl_size"
  let ?E = "\<lambda>u. u\<lparr>t_rows := nodal_rows_effect bank_name ?nb (d_styles ?doc3) (t_rows u)\<rparr>"
  let ?doc1 = "?doc3\<lparr>d_paragraphs :=
                  nodal_paragraphs_effect bank_name ?nb (d_styles ?doc3) (d_paragraphs ?doc3),
                d_tables := map ?E (d_tables ?doc3)\<rparr>"
  have ub: "update_body template bank_name accounts placeholder tone font_name font_size
              = Inr ?doc1"
    using nodal_steps_effect [OF rect3, of bank_name tmpl_font tmpl_size]
    by (simp add: update_body_def bn)
  have t1: "d_tables ?doc1 ! length pre = ?E ?t3"
    by (simp add: nth_append)
  have t3: "d_tables ?doc3 ! length pre = ?t3" by simp
  let ?rows1 = "nodal_rows_effect bank_name ?nb (d_styles ?doc3) (?h1 # rs)"
  have rows1: "t_rows (d_tables ?doc1 ! length pre) = ?rows1"
    unfolding t1 by (simp add: rows3)
  have l3: "length (t_rows (d_tables ?doc3 ! length pre)) = 1 + length accounts"
    unfolding t3 rows3 using len by simp
  have l1: "length (t_rows (d_tables ?doc1 ! length pre)) = 1 + length accounts"
    unfolding rows1 using len by (simp add: nodal_rows_effect_length)
  have c3: "\<forall>i<length accounts.
           map cell_text (row_cells (t_rows (d_tables ?doc3 ! length pre) ! (i + 1)))
             = [account_no (accounts ! i), account_name (accounts ! i), ifsc (accounts ! i)]"
    unfolding t3 rows3 using nth by simp
  have hd1: "?rows1 ! 0 = ?h1" by (rule nodal_rows_effect_hd)
  have htext: "map cell_text (row_cells (t_rows (d_tables ?doc1 ! length pre) ! 0))
         = map cell_text (row_cells (hd (t_rows t)))"
    unfolding rows1 hd1 by (simp add: rows comp_def cell_text_restyle_header)
  have hstyle: "\<forall>c\<in>set (row_cells (t_rows (d_tables ?doc1 ! length pre) ! 0)).
           (\<forall>p\<in>set (c_paragraphs c). \<forall>r\<in>set (p_runs p). r_bold r = Some True)
           \<and> c_margins c \<noteq> [] \<and> last (c_margins c) = (36, 36, 36, 36)"
    unfolding rows1 hd1
    by (auto simp: restyle_header_margins dest: restyle_header_bold)
  have Hdef: "?H = (case header_row_height of
                       None \<Rightarrow> Pt (tmpl_size + 6)
                     | Some h \<Rightarrow> if h \<noteq> 0 then h else Pt (tmpl_size + 6))"
    by (simp add: row_height_or_default_def or_nat_def)
  have heights3: "\<forall>r\<in>set (?h1 # rs). row_height r = Some ?H \<and> row_height_rule r = Some AT_LEAST"
    using nth len by (auto simp: in_set_conv_nth)
  have heights: "\<forall>r\<in>set (t_rows (d_tables ?doc1 ! length pre)).
           row_height r = Some ?H \<and> row_height_rule r = Some AT_LEAST"
  proof
    fix r assume "r \<in> set (t_rows (d_tables ?doc1 ! length pre))"
    then have r: "r \<in> set ?rows1" by (simp only: rows1)
    note eq = nodal_rows_effect_heights [of bank_name ?nb "d_styles ?doc3" "?h1 # rs"]
    from r have "row_height r \<in> set (map row_height ?rows1)"
      and "row_height_rule r \<in> set (map row_height_rule ?rows1)" by simp_all
    then have "row_height r \<in> set (map row_height (?h1 # rs))"
      and "row_height_rule r \<in> set (map row_height_rule (?h1 # rs))"
      by (simp_all only: eq [THEN conjunct1] eq [THEN conjunct2])
    then obtain x y where x: "x \<in> set (?h1 # rs)" "row_height r = row_height x"
      and y: "y \<in> set (?h1 # rs)" "row_height_rule r = row_height_rule y"
      by (auto simp only: set_map image_iff)
    from heights3 x(1) have "row_height x = Some ?H" by blast
    moreover from heights3 y(1) have "row_height_rule y = Some AT_LEAST" by blast
    ultimately show "row_height r = Some ?H \<and> row_height_rule r = Some AT_LEAST"
      using x(2) y(2) by simp
  qed
  have quiet: "(\<forall>c\<in>set (row_cells (hd (t_rows t))). \<not> mentions_nodal (cell_text c))
          \<and> (\<forall>a\<in>set accounts. \<not> mentions_nodal (account_no a)
                 \<and> \<not> mentions_nodal (account_name a) \<and> \<not> mentions_nodal (ifsc a))
          \<longrightarrow> (\<forall>i<length accounts.
                 map cell_text (row_cells (t_rows (d_tables ?doc1 ! length pre) ! (i + 1)))
                   = [account_no (accounts ! i), account_name (accounts ! i),
                      ifsc (accounts ! i)])"
  proof (intro impI, elim conjE)
    assume qh: "\<forall>c\<in>set (row_cells (hd (t_rows t))). \<not> mentions_nodal (cell_text c)"
      and qa: "\<forall>a\<in>set accounts. \<not> mentions_nodal (account_no a)
                 \<and> \<not> mentions_nodal (account_name a) \<and> \<not> mentions_nodal (ifsc a)"
    from r3 have cells3: "\<forall>r\<in>set (?h1 # rs). length (row_cells r) = 3"
      using grid by (simp add: rectangular_rows rows3 set_table_borders_def
          set_table_grid_style_def)
    have qh1: "\<forall>c\<in>set (row_cells ?h1). \<not> mentions_nodal (cell_text c)"
      using qh by (simp add: rows cell_text_restyle_header)
    have qrs: "\<forall>r\<in>set rs. \<forall>c\<in>set (row_cells r). \<not> mentions_nodal (cell_text c)"
    proof (intro ballI)
      fix r c assume "r \<in> set rs" and c: "c \<in> set (row_cells r)"
      then obtain i where i: "i < length rs" "r = rs ! i" by (auto simp: in_set_conv_nth)
      with nth len have m: "map cell_text (row_cells r)
           = [account_no (accounts ! i), account_name (accounts ! i), ifsc (accounts ! i)]"
        by simp
      from c have "cell_text c \<in> set (map cell_text (row_cells r))" by simp
      then have "cell_text c \<in> {account_no (accounts ! i), account_name (accounts ! i),
                                ifsc (accounts ! i)}"
        unfolding m by simp
      moreover from i len have "accounts ! i \<in> set accounts" by simp
      ultimately show "\<not> mentions_nodal (cell_text c)" using qa by auto
    qed
    have "\<forall>r\<in>set (?h1 # rs). length (row_cells r) = 3
            \<and> (\<forall>c\<in>set (row_cells r). \<not> mentions_nodal (cell_text c))"
      using cells3 qh1 qrs by simp
    then have "?rows1 = ?h1 # rs" by (rule nodal_rows_effect_quiet)
    then show "\<forall>i<length accounts.
                 map cell_text (row_cells (t_rows (d_tables ?doc1 ! length pre) ! (i + 1)))
                   = [account_no (accounts ! i), account_name (accounts ! i),
                      ifsc (accounts ! i)]"
      unfolding rows1 using nth by simp
  qed
  have lt3: "length (d_tables ?doc3) = length (pre @ t # post)" by simp
  have lt1: "length (d_tables ?doc1) = length (pre @ t # post)" by simp
  show ?thesis
    apply (rule exI [of _ ?doc3])
    apply (rule exI [of _ ?doc1])
    apply (intro conjI)
    subgoal by (rule bn)
    subgoal by (rule ub)
    subgoal by (rule lt3)
    subgoal by (rule lt1)
    subgoal by (rule l3)
    subgoal by (rule l1)
    subgoal by (rule c3)
    subgoal by (rule quiet)
    subgoal by (rule htext)
    subgoal by (rule hstyle)
    subgoal using heights unfolding Hdef by blast
    done
qed


theorem accounts_table_regenerated_witness:
  "length (t_rows (d_tables (projr
        (update_body sample_template ''HDFC BANK'' sample_accounts ''ICICI BANK'' ''formal''
           ''Bookman Old Style'' 8)) ! 0)) = 2
   \<and> map cell_text (row_cells (t_rows (d_tables (projr
        (update_body sample_template ''HDFC BANK'' sample_accounts ''ICICI BANK'' ''formal''
           ''Bookman Old Style'' 8)) ! 0) ! 1)) = [''1001'', ''Asha'', ''HDFC0000001'']"
proof -
  define T where
    "T = hd (d_tables (replace_placeholder (apply_tone sample_template ''formal'' None None)
                         ''ICICI BANK'' ''HDFC BANK''))"
  have ext: "extract_template_baseline sample_template ''Bookman Old Style'' 8
               = Inr (''Bookman Old Style'', 8, Some [None, None, None], None,
                      Some (None, None, None))"
    by (simp add: doc_eval_defs)
  have tabs: "d_tables (replace_placeholder (apply_tone sample_template ''formal'' None None)
                          ''ICICI BANK'' ''HDFC BANK'') = [] @ T # []"
    unfolding T_def by (simp add: doc_eval_defs)
  have skip: "list_all skips_table []" by simp
  have sel: "selects_table T"
    unfolding T_def by (simp add: selects_table_def doc_eval_defs)
  have rect: "list_all rectangular ([] @ T # [])"
    unfolding T_def by (simp add: rectangular_def doc_eval_defs)
  have qh: "\<forall>c\<in>set (row_cells (hd (t_rows T))). \<not> mentions_nodal (cell_text c)"
    unfolding T_def by (simp add: doc_eval_defs)
  have qa: "\<forall>a\<in>set sample_accounts. \<not> mentions_nodal (account_no a)
              \<and> \<not> mentions_nodal (account_name a) \<and> \<not> mentions_nodal (ifsc a)"
    by (simp add: sample_accounts_def mentions_nodal_def lower_defs)
  from accounts_table_regenerated [OF ext tabs skip sel rect, of sample_accounts]
  obtain doc1 where
    ub: "update_body sample_template ''HDFC BANK'' sample_accounts ''ICICI BANK'' ''formal''
           ''Bookman Old Style'' 8 = Inr doc1"
    and l1: "length (t_rows (d_tables doc1 ! length ([] :: table list))) = 1 + length sample_accounts"
    and q: "(\<forall>c\<in>set (row_cells (hd (t_rows T))). \<not> mentions_nodal (cell_text c))
          \<and> (\<forall>a\<in>set sample_accounts. \<not> mentions_nodal (account_no a)
                 \<and> \<not> mentions_nodal (account_name a) \<and> \<not> mentions_nodal (ifsc a))
          \<longrightarrow> (\<forall>i<length sample_accounts.
                 map cell_text (row_cells (t_rows (d_tables doc1 ! length ([] :: table list)) ! (i + 1)))
                   = [account_no (sample_accounts ! i), account_name (sample_accounts ! i),
                      ifsc (sample_accounts ! i)])"
    by (elim exE conjE) (rule that)
  from q qh qa have "\<forall>i<length sample_accounts.
                 map cell_text (row_cells (t_rows (d_tables doc1 ! length ([] :: table list)) ! (i + 1)))
                   = [account_no (sample_accounts ! i), account_name (sample_accounts ! i),
                      ifsc (sample_accounts ! i)]"
    by (rule mp [OF _ conjI])
  then have "map cell_text (row_cells (t_rows (d_tables doc1 ! 0) ! 1))
               = [''1001'', ''Asha'', ''HDFC0000001'']"
    by (simp add: sample_accounts_def)
  moreover from l1 have "length (t_rows (d_tables doc1 ! 0)) = 2"
    by (simp add: sample_accounts_def)
  ultimately show ?thesis unfolding ub by simp
qed

text \<open>
  Claim C1 as stated speaks of every template that contains such a table. The table is
  looked for after the placeholder has been replaced: with the placeholder \<^verbatim>\<open>IFSC\<close> the
  header of the sample template no longer contains \<^verbatim>\<open>ifsc\<close>, the table is not selected,
  and it keeps its three rows and its old data although there is one account.
\<close>

theorem accounts_table_counterexample:
  "selects_table (hd (d_tables sample_template))
   \<and> length sample_accounts = 1
   \<and> \<not> isl (update_body sample_template ''HDFC BANK'' sample_accounts ''IFSC'' ''formal''
              ''Bookman Old Style'' 8)
   \<and> length (t_rows (hd (d_tables (projr
        (update_body sample_template ''HDFC BANK'' sample_accounts ''IFSC'' ''formal''
           ''Bookman Old Style'' 8))))) = 3
   \<and> map cell_text (row_cells (t_rows (hd (d_tables (projr
        (update_body sample_template ''HDFC BANK'' sample_accounts ''IFSC'' ''formal''
           ''Bookman Old Style'' 8)))) ! 1)) = [''1'', ''Old'', ''ICICI BANK'']"
  by (simp add: selects_table_def doc_eval_defs upt_rec)

end
